theory Spec2Isabelle
  imports Complex_Main
begin

section \<open>The shooting gallery: data model\<close>

text \<open>
  JavaScript numbers are modelled as follows: the score and the point values, which only
  ever hold small integers, are \<open>int\<close>; times, angles, distances and coordinates are
  \<open>real\<close>. The countdown of the match is the one place where a value is compared with
  0 after being diminished again and again, so that the rounding of each subtraction
  decides when the match ends: there the subtraction is rounded to a double, as the
  source's is. Elsewhere arithmetic is exact.
\<close>

subsection \<open>Rounding to a double\<close>

text \<open>
  IEEE 754 binary64 with the default rounding, as JavaScript numbers have it: a real is
  rounded to the nearest multiple of the unit in its last place, of two equally near ones
  to the even one. The unit in the last place of \<open>x\<close> is \<open>2\<close> to the power of the exponent of
  \<open>x\<close> less 52 (53 significant bits), the exponent being no less than \<open>-1022\<close> (below that,
  doubles are subnormal and equally spaced). Magnitudes of \<open>2 ^ 1024\<close> and more, where a
  double overflows to an infinity, are rounded here as if the exponent range had no upper
  end.
\<close>

definition round_even :: "real \<Rightarrow> int" where
  "round_even y =
     (let f = \<lfloor>y\<rfloor>; r = y - of_int f
      in if r < 1 / 2 then f else if 1 / 2 < r then f + 1 else if even f then f else f + 1)"

definition ulp :: "real \<Rightarrow> real" where
  "ulp x = 2 powr of_int (max \<lfloor>log 2 \<bar>x\<bar>\<rfloor> (- 1022) - 52)"

definition fl64 :: "real \<Rightarrow> real" where
  "fl64 x = (if x = 0 then 0 else of_int (round_even (x / ulp x)) * ulp x)"

subsection \<open>game.js: the dolls\<close>

text \<open>\<open>userData.state\<close> of a doll: one of the strings "standing", "falling", "fallen".\<close>

datatype doll_state = Standing | Falling | Fallen

text \<open>
  One entry of \<open>this.dolls\<close>: the pivot group with its single child mesh.
  \<open>position\<close> is \<open>pivot.position\<close>, \<open>rotation_x\<close> is \<open>pivot.rotation.x\<close>,
  \<open>color\<close> is the material colour of the mesh, and \<open>isTarget\<close>, \<open>points\<close>, \<open>state\<close>
  are the fields of \<open>doll.userData\<close>.
\<close>

record Doll =
  position :: "real \<times> real \<times> real"
  rotation_x :: real
  color :: nat
  isTarget :: bool
  points :: int
  state :: doll_state

subsection \<open>The page elements written by the game\<close>

datatype bar_background = Red | Gradient

text \<open>
  The DOM elements the two source files write to: \<open>#score\<close>, \<open>#time-bar\<close>,
  \<open>#game-over-screen\<close>, \<open>#final-score\<close>, \<open>#start-screen\<close> and \<open>#crosshair\<close>.
\<close>

record Document =
  scoreText :: int
  timeBarScaleX :: real
  timeBarBackground :: bar_background
  gameOverHidden :: bool
  finalScoreText :: int
  startScreenHidden :: bool
  crosshairOpacity :: real
  crosshairLeft :: real
  crosshairTop :: real
  crosshairShooting :: bool

subsection \<open>game.js: class Game\<close>

record Game =
  score :: int
  totalTime :: real
  timeLeft :: real
  isPlaying :: bool
  dolls :: "Doll list"
  document :: Document

text \<open>The constructor; \<open>doc\<close> is the page as it is when the script starts.\<close>

definition Game_new :: "Document \<Rightarrow> Game" where
  "Game_new doc =
     \<lparr> score = 0, totalTime = 30, timeLeft = 30, isPlaying = False, dolls = [],
       document = doc \<rparr>"

definition shelfY :: "real list" where
  "shelfY = [2, -1, -4]"

definition colors :: "nat list" where
  "colors = [0xff0000, 0x00ff00, 0x0000ff, 0xffff00, 0xff00ff]"

text \<open>The body of the inner \<open>for\<close> loop of \<open>createDolls\<close>: doll \<open>i\<close> of shelf \<open>layerIndex\<close>.\<close>

definition createDoll :: "real \<Rightarrow> real \<Rightarrow> nat \<Rightarrow> nat \<Rightarrow> Doll" where
  "createDoll bgWidth y layerIndex i =
     (let count = 5 + layerIndex;
          spacing = (bgWidth * 0.6) / real count;
          x = (real i - (real count - 1) / 2) * spacing
      in \<lparr> position = (x, y - 0.6, -12 + real layerIndex * 1.5),
           rotation_x = 0,
           color = colors ! ((i + layerIndex) mod length colors),
           isTarget = True,
           points = (3 - int layerIndex) * 10,
           state = Standing \<rparr>)"

text \<open>One iteration of \<open>shelfY.forEach\<close>: the dolls of one shelf, in the order pushed.\<close>

definition createShelf :: "real \<Rightarrow> real \<Rightarrow> nat \<Rightarrow> Doll list" where
  "createShelf bgWidth y layerIndex =
     map (createDoll bgWidth y layerIndex) [0..<5 + layerIndex]"

definition createDolls :: "real \<Rightarrow> real \<Rightarrow> Game \<Rightarrow> Game" where
  "createDolls bgWidth bgHeight g =
     g\<lparr> dolls := dolls g @
            concat (map (\<lambda>(layerIndex, y). createShelf bgWidth y layerIndex)
                        (enumerate 0 shelfY)) \<rparr>"

text \<open>
  The callback that \<open>initWorld\<close> hands to the texture loader; \<open>width\<close> and \<open>height\<close> are
  the dimensions of the loaded background image.
\<close>

definition onTextureLoad :: "real \<Rightarrow> real \<Rightarrow> Game \<Rightarrow> Game" where
  "onTextureLoad width height g =
     (let aspectRatio = width / height;
          planeHeight = 20;
          planeWidth = planeHeight * aspectRatio
      in createDolls planeWidth planeHeight g)"

definition updateUI :: "Game \<Rightarrow> Game" where
  "updateUI g =
     (let pct = (timeLeft g / 60) * 100
      in g\<lparr> document := (document g)
             \<lparr> scoreText := score g,
               timeBarScaleX := pct / 100,
               timeBarBackground := (if pct < 20 then Red else Gradient) \<rparr> \<rparr>)"

definition endGame :: "Game \<Rightarrow> Game" where
  "endGame g =
     g\<lparr> isPlaying := False,
        document := (document g)
          \<lparr> gameOverHidden := False,
            finalScoreText := score g,
            crosshairOpacity := 0 \<rparr> \<rparr>"

definition resetDoll :: "Doll \<Rightarrow> Doll" where
  "resetDoll pivot = pivot\<lparr> rotation_x := 0, state := Standing \<rparr>"

definition start :: "Game \<Rightarrow> Game" where
  "start g =
     (let g1 = updateUI (g\<lparr> score := 0, timeLeft := totalTime g, isPlaying := True \<rparr>)
      in g1\<lparr> dolls := map resetDoll (dolls g1) \<rparr>)"

text \<open>The body of \<open>this.dolls.forEach\<close> in \<open>update\<close>.\<close>

definition animateDoll :: "real \<Rightarrow> Doll \<Rightarrow> Doll" where
  "animateDoll dt pivot =
     (if state pivot = Falling then
        (let fallSpeed = 5 * dt;
             p1 = pivot\<lparr> rotation_x := rotation_x pivot - fallSpeed \<rparr>
         in if rotation_x p1 < - pi / 2
            then p1\<lparr> rotation_x := - pi / 2, state := Fallen \<rparr>
            else p1)
      else pivot)"

definition update :: "real \<Rightarrow> Game \<Rightarrow> Game" where
  "update dt g =
     (if \<not> isPlaying g then g
      else
        let g1 = g\<lparr> timeLeft := fl64 (timeLeft g - dt) \<rparr>;
            g2 = (if timeLeft g1 \<le> 0 then endGame (g1\<lparr> timeLeft := 0 \<rparr>) else g1);
            g3 = g2\<lparr> dolls := map (animateDoll dt) (dolls g2) \<rparr>
        in updateUI g3)"

subsection \<open>The ray query\<close>

text \<open>
  Modelled from the spec: the ray intersection query of the rendering library, which is
  not part of the repository. For a ray, the library decides for each target mesh whether
  the ray meets it and at which distance; \<open>intersectObjects\<close> returns the meshes met, as
  pairs (distance, index of the target in the list passed), sorted nearest first.

  A \<open>raycaster\<close> stands for \<open>setFromCamera\<close> together with the geometry: given the
  normalised device coordinates of the aim point and the dolls as they are now, it tells
  for the target at each index the distance at which the ray meets it, if it does.
\<close>

type_synonym raycaster = "real \<times> real \<Rightarrow> Doll list \<Rightarrow> nat \<Rightarrow> real option"

definition intersectObjects :: "(nat \<Rightarrow> real option) \<Rightarrow> 'a list \<Rightarrow> (real \<times> nat) list" where
  "intersectObjects ray targets =
     sort_key fst
       (concat (map (\<lambda>i. case ray i of None \<Rightarrow> [] | Some d \<Rightarrow> [(d, i)])
                    [0..<length targets]))"

text \<open>
  What a call of \<open>shoot\<close> returns and which sound it plays: \<open>NotPlaying\<close> is the bare
  \<open>return\<close> of the first line, \<open>Hit\<close> is \<open>playHitSound\<close> followed by \<open>return true\<close>, and
  \<open>Miss\<close> is \<open>playShootSound\<close> followed by \<open>return false\<close>.
\<close>

datatype shot = NotPlaying | Hit | Miss

definition shoot :: "raycaster \<Rightarrow> real \<times> real \<Rightarrow> Game \<Rightarrow> shot \<times> Game" where
  "shoot cast ndc g =
     (if \<not> isPlaying g then (NotPlaying, g)
      else
        let targets = dolls g;
            intersects = intersectObjects (cast ndc targets) targets
        in case intersects of
             [] \<Rightarrow> (Miss, g)
           | (distance, hitObj) # _ \<Rightarrow>
               if state (dolls g ! hitObj) = Standing
               then (Hit, g\<lparr> dolls := (dolls g)[hitObj := (dolls g ! hitObj)\<lparr> state := Falling \<rparr>],
                              score := score g + points (dolls g ! hitObj) \<rparr>)
               else (Miss, g))"

subsection \<open>Sequences of calls on a game\<close>

datatype event =
    Start
  | Update real
  | Shoot "real \<times> real" raycaster
  | TextureLoaded real real

fun step :: "event \<Rightarrow> Game \<Rightarrow> Game" where
  "step Start g = start g"
| "step (Update dt) g = update dt g"
| "step (Shoot ndc cast) g = snd (shoot cast ndc g)"
| "step (TextureLoaded width height) g = onTextureLoad width height g"

fun exec :: "event list \<Rightarrow> Game \<Rightarrow> Game" where
  "exec [] g = g"
| "exec (e # es) g = exec es (step e g)"

subsection \<open>main.js: gestures and the main loop\<close>

text \<open>
  A hand landmark as delivered by the hand tracker, in normalised camera coordinates (the
  depth coordinate is never read). A hand is its landmarks by index: 4 is the tip of the
  thumb, 8 the tip of the index finger. \<open>handResults\<close> is \<open>None\<close> when no result has arrived
  yet or it carries no \<open>multiHandLandmarks\<close>, and otherwise the list of the hands detected.
\<close>

record Landmark =
  lm_x :: real
  lm_y :: real

type_synonym hand_results = "(nat \<Rightarrow> Landmark) list option"

text \<open>
  The variables of the module: the gesture state, the size of the window, and the game
  (which carries the page).
\<close>

record App =
  isPinching :: bool
  pinchCooldown :: real
  innerWidth :: real
  innerHeight :: real
  game :: Game

definition App_new :: "Document \<Rightarrow> real \<Rightarrow> real \<Rightarrow> App" where
  "App_new doc width height =
     \<lparr> isPinching = False, pinchCooldown = 0, innerWidth = width, innerHeight = height,
       game = Game_new doc \<rparr>"

definition PINCH_THRESHOLD :: real where
  "PINCH_THRESHOLD = 0.05"

text \<open>Writing to elements of the page from the module.\<close>

definition onPage :: "(Document \<Rightarrow> Document) \<Rightarrow> App \<Rightarrow> App" where
  "onPage f a = a\<lparr> game := (game a)\<lparr> document := f (document (game a)) \<rparr> \<rparr>"

definition clickStart :: "App \<Rightarrow> App" where
  "clickStart a =
     (let a1 = onPage (\<lambda>d. d\<lparr> startScreenHidden := True \<rparr>) a
      in a1\<lparr> game := start (game a1) \<rparr>)"

definition clickRestart :: "App \<Rightarrow> App" where
  "clickRestart a =
     (let a1 = onPage (\<lambda>d. d\<lparr> gameOverHidden := True \<rparr>) a
      in a1\<lparr> game := start (game a1) \<rparr>)"

text \<open>
  \<open>fireShot\<close>. A window of width or height 0 makes the division yield 0 here, where the
  source yields an infinity or NaN; the coordinates only reach the ray query.
\<close>

definition fireShot :: "raycaster \<Rightarrow> real \<Rightarrow> real \<Rightarrow> App \<Rightarrow> App" where
  "fireShot cast screenX screenY a =
     (let ndc = ((screenX / innerWidth a) * 2 - 1, - (screenY / innerHeight a) * 2 + 1)
      in a\<lparr> game := snd (shoot cast ndc (game a)) \<rparr>)"

text \<open>The value of \<open>distance\<close> in \<open>processGestures\<close>.\<close>

definition pinchDistance :: "(nat \<Rightarrow> Landmark) \<Rightarrow> real" where
  "pinchDistance landmarks =
     (let indexTip = landmarks 8;
          thumbTip = landmarks 4
      in sqrt ((lm_x indexTip - lm_x thumbTip)\<^sup>2 + (lm_y indexTip - lm_y thumbTip)\<^sup>2))"

text \<open>
  \<open>processGestures\<close>, with the results it is called for; the boolean tells whether
  \<open>fireShot\<close> was called.
\<close>

definition processGestures :: "raycaster \<Rightarrow> hand_results \<Rightarrow> App \<Rightarrow> bool \<times> App" where
  "processGestures cast handResults a =
     (case handResults of
        None \<Rightarrow> (False, onPage (\<lambda>d. d\<lparr> crosshairOpacity := 0 \<rparr>) a)
      | Some [] \<Rightarrow> (False, onPage (\<lambda>d. d\<lparr> crosshairOpacity := 0 \<rparr>) a)
      | Some (landmarks # _) \<Rightarrow>
          if \<not> isPlaying (game a) then (False, a)
          else
            let indexTip = landmarks 8;
                x = (1 - lm_x indexTip) * innerWidth a;
                y = lm_y indexTip * innerHeight a;
                a1 = onPage (\<lambda>d. d\<lparr> crosshairLeft := x, crosshairTop := y,
                                       crosshairOpacity := 1 \<rparr>) a;
                distance = pinchDistance landmarks
            in if distance < PINCH_THRESHOLD then
                 (if \<not> isPinching a1 \<and> pinchCooldown a1 \<le> 0
                  then (True, onPage (\<lambda>d. d\<lparr> crosshairShooting := True \<rparr>)
                                ((fireShot cast x y a1)\<lparr> isPinching := True,
                                                          pinchCooldown := 0.5 \<rparr>))
                  else (False, a1))
               else (False, onPage (\<lambda>d. d\<lparr> crosshairShooting := False \<rparr>)
                              (a1\<lparr> isPinching := False \<rparr>)))"

definition animate :: "real \<Rightarrow> App \<Rightarrow> App" where
  "animate dt a =
     (let a1 = (if pinchCooldown a > 0 then a\<lparr> pinchCooldown := pinchCooldown a - dt \<rparr> else a)
      in a1\<lparr> game := update dt (game a1) \<rparr>)"

text \<open>
  The callbacks the page can deliver, in any order: a result of the hand tracker, an
  animation frame after \<open>dt\<close> seconds, a click on either button, the background texture
  loaded, the window resized.
\<close>

datatype app_event =
    Results hand_results raycaster
  | Frame real
  | ClickStart
  | ClickRestart
  | Loaded real real
  | Resize real real

fun appStep :: "app_event \<Rightarrow> App \<Rightarrow> bool \<times> App" where
  "appStep (Results handResults cast) a = processGestures cast handResults a"
| "appStep (Frame dt) a = (False, animate dt a)"
| "appStep ClickStart a = (False, clickStart a)"
| "appStep ClickRestart a = (False, clickRestart a)"
| "appStep (Loaded w h) a = (False, a\<lparr> game := onTextureLoad w h (game a) \<rparr>)"
| "appStep (Resize w h) a = (False, a\<lparr> innerWidth := w, innerHeight := h \<rparr>)"

fun run :: "app_event list \<Rightarrow> App \<Rightarrow> App" where
  "run [] a = a"
| "run (e # es) a = run es (snd (appStep e a))"

text \<open>For each callback of a sequence, whether it fired a shot.\<close>

fun fires :: "app_event list \<Rightarrow> App \<Rightarrow> bool list" where
  "fires [] a = []"
| "fires (e # es) a = fst (appStep e a) # fires es (snd (appStep e a))"

text \<open>A callback that does not release the pinch: no hand, or a hand below the threshold.\<close>

fun pinched :: "app_event \<Rightarrow> bool" where
  "pinched (Results (Some (landmarks # hands)) cast) = (pinchDistance landmarks < PINCH_THRESHOLD)"
| "pinched e = True"

subsection \<open>Auxiliary notions for stating the properties\<close>

text \<open>
  \<open>nearest ray n i\<close>: among the first \<open>n\<close> targets, target \<open>i\<close> is the one the ray meets
  first; of several targets met at the same distance, the one of least index.
\<close>

definition nearest :: "(nat \<Rightarrow> real option) \<Rightarrow> nat \<Rightarrow> nat \<Rightarrow> bool" where
  "nearest ray n i \<longleftrightarrow>
     i < n \<and>
     (case ray i of
        None \<Rightarrow> False
      | Some d \<Rightarrow>
          (\<forall>j\<in>set [0..<n]. case ray j of
                    None \<Rightarrow> True
                  | Some d' \<Rightarrow> d < d' \<or> (d = d' \<and> i \<le> j)))"

text \<open>The unsorted list of hits over a list of target indices.\<close>

definition hitList :: "(nat \<Rightarrow> real option) \<Rightarrow> nat list \<Rightarrow> (real \<times> nat) list" where
  "hitList ray is = concat (map (\<lambda>i. case ray i of None \<Rightarrow> [] | Some d \<Rightarrow> [(d, i)]) is)"

subsection \<open>Concrete inputs\<close>

text \<open>A page, a ray that meets the listed targets at the listed distances, and games.\<close>

definition page0 :: Document where
  "page0 = \<lparr> scoreText = 0, timeBarScaleX = 1, timeBarBackground = Gradient,
              gameOverHidden = True, finalScoreText = 0, startScreenHidden = False,
              crosshairOpacity = 0, crosshairLeft = 0, crosshairTop = 0,
              crosshairShooting = False \<rparr>"

definition rayAt :: "(nat \<times> real) list \<Rightarrow> raycaster" where
  "rayAt hits ndc targets i = map_of hits i"

definition loadedGame :: Game where
  "loadedGame = exec [TextureLoaded 1600 900] (Game_new page0)"

definition playingGame :: Game where
  "playingGame = exec [TextureLoaded 1600 900, Start] (Game_new page0)"


definition finishedGame :: Game where
  "finishedGame =
     exec [TextureLoaded 1600 900, Start, Shoot (0, 0) (rayAt [(7, 17)]), Update 1,
           Update 29] (Game_new page0)"


text \<open>The number of shelves at or below the shelf of index \<open>layerIndex\<close>.\<close>

definition rowsFromBottom :: "nat \<Rightarrow> nat" where
  "rowsFromBottom layerIndex = length (filter (\<lambda>y. y \<le> shelfY ! layerIndex) shelfY)"

text \<open>The height at which a doll stands: the second coordinate of its pivot.\<close>

definition pivotY :: "Doll \<Rightarrow> real" where
  "pivotY d = fst (snd (position d))"

text \<open>The dolls that \<open>createDolls\<close> appends.\<close>

definition newDolls :: "real \<Rightarrow> Doll list" where
  "newDolls bgWidth =
     concat (map (\<lambda>(layerIndex, y). createShelf bgWidth y layerIndex) (enumerate 0 shelfY))"

text \<open>The sum of the point values of the dolls that are not standing.\<close>

definition credited :: "Doll list \<Rightarrow> int" where
  "credited ds = sum_list (map points (filter (\<lambda>d. state d \<noteq> Standing) ds))"

fun isTextureLoaded :: "event \<Rightarrow> bool" where
  "isTextureLoaded (TextureLoaded width height) = True"
| "isTextureLoaded _ = False"

text \<open>The order of the states along standing, falling, fallen.\<close>

fun rank :: "doll_state \<Rightarrow> nat" where
  "rank Standing = 0"
| "rank Falling = 1"
| "rank Fallen = 2"

definition shotGame :: Game where
  "shotGame =
     exec [TextureLoaded 1600 900, Start, Shoot (0, 0) (rayAt [(7, 17)])] (Game_new page0)"

text \<open>The point values of the dolls that \<open>createDolls\<close> appends, in order.\<close>

definition shelfPoints :: "int list" where
  "shelfPoints = [30, 30, 30, 30, 30, 20, 20, 20, 20, 20, 20, 10, 10, 10, 10, 10, 10, 10]"


text \<open>The states observed after each of a sequence of \<open>update\<close> calls.\<close>

fun updates :: "real list \<Rightarrow> Game \<Rightarrow> Game list" where
  "updates [] g = []"
| "updates (dt # dts) g = update dt g # updates dts (update dt g)"

text \<open>How often, along a sequence of states, a playing match is followed by one that is not.\<close>

fun endings :: "Game list \<Rightarrow> nat" where
  "endings (a # b # gs) = (if isPlaying a \<and> \<not> isPlaying b then 1 else 0) + endings (b # gs)"
| "endings gs = 0"


definition endedFalling :: Game where
  "endedFalling =
     exec [TextureLoaded 1600 900, Start, Update (239 / 8), Shoot (0, 0) (rayAt [(7, 17)]),
           Update (1 / 8)] (Game_new page0)"

definition edgeFalling :: Game where
  "edgeFalling =
     exec [TextureLoaded 1600 900, Start, Shoot (0, 0) (rayAt [(7, 17)]), Update (pi / 10)]
       (Game_new page0)"

definition fallingGame :: Game where
  "fallingGame =
     exec [TextureLoaded 1600 900, Start, Shoot (0, 0) (rayAt [(7, 17)]), Update (1 / 10)]
       (Game_new page0)"


subsection \<open>Concrete inputs for the gesture\<close>

text \<open>A hand whose thumb tip is at distance \<open>d\<close> beside the tip of the index finger.\<close>

definition hand :: "real \<Rightarrow> nat \<Rightarrow> Landmark" where
  "hand d i = (if i = 4 then \<lparr> lm_x = 1 / 2 + d, lm_y = 1 / 2 \<rparr> else \<lparr> lm_x = 1 / 2, lm_y = 1 / 2 \<rparr>)"

text \<open>One tracker result per distance sample, each followed by an animation frame.\<close>

definition sampleFrames :: "real list \<Rightarrow> real \<Rightarrow> app_event list" where
  "sampleFrames ds dt = concat (map (\<lambda>d. [Results (Some [hand d]) (rayAt []), Frame dt]) ds)"

definition startedApp :: App where
  "startedApp = run [ClickStart] (App_new page0 1280 720)"

text \<open>The application before the start button is clicked.\<close>

definition idleApp :: App where
  "idleApp = App_new page0 1280 720"


section \<open>Properties\<close>

subsection \<open>Rounding to a double\<close>

lemma round_even_cases: "round_even y = \<lfloor>y\<rfloor> \<or> round_even y = \<lfloor>y\<rfloor> + 1"
  by (simp add: round_even_def Let_def)

lemma round_even_near:
  "y - 1 / 2 \<le> of_int (round_even y)" "of_int (round_even y) \<le> y + 1 / 2"
proof -
  have "of_int \<lfloor>y\<rfloor> \<le> y" "y < of_int \<lfloor>y\<rfloor> + 1" by linarith+
  then show "y - 1 / 2 \<le> of_int (round_even y)" "of_int (round_even y) \<le> y + 1 / 2"
    by (auto simp: round_even_def Let_def; linarith)+
qed

lemma round_even_ge: "of_int m \<le> y \<Longrightarrow> m \<le> round_even y"
proof -
  assume "of_int m \<le> y"
  then have "m \<le> \<lfloor>y\<rfloor>" by (simp add: le_floor_iff)
  with round_even_cases[of y] show ?thesis by auto
qed

lemma round_even_le: "y \<le> of_int m \<Longrightarrow> round_even y \<le> m"
proof -
  assume a: "y \<le> of_int m"
  then have f: "\<lfloor>y\<rfloor> \<le> m" by (simp add: floor_le_iff)
  show ?thesis
  proof (cases "y = of_int \<lfloor>y\<rfloor>")
    case True
    then have "round_even y = \<lfloor>y\<rfloor>" by (simp add: round_even_def Let_def)
    with f show ?thesis by simp
  next
    case False
    have "of_int \<lfloor>y\<rfloor> \<le> y" by linarith
    with False a have "of_int \<lfloor>y\<rfloor> < (of_int m :: real)" by linarith
    then have "\<lfloor>y\<rfloor> < m" by simp
    with round_even_cases[of y] show ?thesis by auto
  qed
qed

lemma round_even_of_int: "round_even (of_int m) = m"
  using round_even_ge[of m "of_int m"] round_even_le[of "of_int m" m] by simp

lemma ulp_pos: "0 < ulp x"
  by (simp add: ulp_def)

lemma fl64_nonpos: "x \<le> 0 \<Longrightarrow> fl64 x \<le> 0"
proof -
  assume "x \<le> 0"
  then have "x / ulp x \<le> of_int 0" using ulp_pos[of x] by (simp add: divide_le_0_iff)
  then have "round_even (x / ulp x) \<le> 0" by (rule round_even_le)
  then have "of_int (round_even (x / ulp x)) * ulp x \<le> 0"
    using ulp_pos[of x] by (simp add: mult_le_0_iff)
  then show ?thesis by (simp add: fl64_def)
qed

lemma fl64_nonneg: "0 \<le> x \<Longrightarrow> 0 \<le> fl64 x"
proof -
  assume "0 \<le> x"
  then have "of_int 0 \<le> x / ulp x" using ulp_pos[of x] by simp
  then have "0 \<le> round_even (x / ulp x)" by (rule round_even_ge)
  then have "0 \<le> of_int (round_even (x / ulp x)) * ulp x"
    using ulp_pos[of x] by simp
  then show ?thesis by (simp add: fl64_def)
qed

lemma ulp_le:
  assumes "0 < x" "x < 2 powr of_int k" "- 1021 \<le> k"
  shows "ulp x \<le> 2 powr of_int (k - 53)"
proof -
  from assms(1,2) have "log 2 x < of_int k" by (simp add: log_less_iff)
  then have "\<lfloor>log 2 x\<rfloor> < k" by (simp add: floor_less_iff)
  with assms(3) have "max \<lfloor>log 2 \<bar>x\<bar>\<rfloor> (- 1022) - 52 \<le> k - 53" using assms(1) by simp
  then have "(of_int (max \<lfloor>log 2 \<bar>x\<bar>\<rfloor> (- 1022) - 52) :: real) \<le> of_int (k - 53)"
    by (simp only: of_int_le_iff)
  then show ?thesis unfolding ulp_def by (simp only: powr_le_cancel_iff one_less_numeral_iff semiring_norm)
qed

lemma fl64_error:
  assumes "0 < x" "x < 32"
  shows "\<bar>fl64 x - x\<bar> \<le> 1 / 2 ^ 49"
proof -
  from assms(2) have "x < 2 powr of_int 5" by simp
  from ulp_le[OF assms(1) this] have u: "ulp x \<le> 2 powr of_int (- 48)" by simp
  have u48: "2 powr of_int (- 48) = (1 / 2 ^ 48 :: real)" by (simp add: powr_neg_numeral)
  let ?y = "x / ulp x"
  from round_even_near[of ?y] have "\<bar>of_int (round_even ?y) - ?y\<bar> \<le> 1 / 2" by linarith
  then have "\<bar>of_int (round_even ?y) - ?y\<bar> * ulp x \<le> 1 / 2 * ulp x"
    using ulp_pos[of x] by (simp only: mult_le_cancel_right) simp
  moreover have "\<bar>of_int (round_even ?y) - ?y\<bar> * ulp x = \<bar>fl64 x - x\<bar>"
  proof -
    have "\<bar>of_int (round_even ?y) - ?y\<bar> * ulp x = \<bar>(of_int (round_even ?y) - ?y) * ulp x\<bar>"
      using ulp_pos[of x] by (simp add: abs_mult)
    also have "(of_int (round_even ?y) - ?y) * ulp x = fl64 x - x"
      using ulp_pos[of x] assms(1) by (simp add: fl64_def field_simps)
    finally show ?thesis .
  qed
  ultimately have "\<bar>fl64 x - x\<bar> \<le> 1 / 2 * ulp x" by simp
  with u u48 show ?thesis by simp
qed

lemma ulp_small:
  assumes "0 < x" "x < 2 ^ 52"
  shows "\<exists>n. ulp x = 1 / 2 ^ n"
proof -
  define m where "m = max \<lfloor>log 2 \<bar>x\<bar>\<rfloor> (- 1022) - 52"
  from assms(2) have "x < 2 powr of_int 52" by simp
  from ulp_le[OF assms(1) this] have "ulp x \<le> 2 powr of_int (- 1)" by simp
  then have "m \<le> - 1"
    unfolding ulp_def m_def
    by (simp only: powr_le_cancel_iff one_less_numeral_iff semiring_norm of_int_le_iff)
  then have "m = - int (nat (- m))" by simp
  then have "ulp x = 2 powr (- real (nat (- m)))"
    unfolding ulp_def m_def[symmetric] by (metis of_int_minus of_int_of_nat_eq)
  also have "\<dots> = 1 / 2 ^ nat (- m)"
    by (simp add: powr_minus powr_realpow divide_inverse)
  finally show ?thesis by blast
qed

lemma fl64_ge_int:
  assumes "0 < x" "x < 2 ^ 52" "of_int k \<le> x"
  shows "of_int k \<le> fl64 x"
proof -
  from ulp_small[OF assms(1,2)] obtain n where u: "ulp x = 1 / 2 ^ n" by blast
  have "of_int (k * 2 ^ n) \<le> x / ulp x"
    using assms(3) by (simp add: u)
  then have "k * 2 ^ n \<le> round_even (x / ulp x)" by (rule round_even_ge)
  then have "(of_int (k * 2 ^ n) :: real) \<le> of_int (round_even (x / ulp x))"
    by (simp only: of_int_le_iff)
  then have "of_int (k * 2 ^ n) * ulp x \<le> of_int (round_even (x / ulp x)) * ulp x"
    using ulp_pos[of x] by (simp only: mult_le_cancel_right) simp
  with assms(1) show ?thesis by (simp add: fl64_def u)
qed

lemma fl64_le_int:
  assumes "0 < x" "x < 2 ^ 52" "x \<le> of_int k"
  shows "fl64 x \<le> of_int k"
proof -
  from ulp_small[OF assms(1,2)] obtain n where u: "ulp x = 1 / 2 ^ n" by blast
  have "x / ulp x \<le> of_int (k * 2 ^ n)"
    using assms(3) by (simp add: u)
  then have "round_even (x / ulp x) \<le> k * 2 ^ n" by (rule round_even_le)
  then have "(of_int (round_even (x / ulp x)) :: real) \<le> of_int (k * 2 ^ n)"
    by (simp only: of_int_le_iff)
  then have "of_int (round_even (x / ulp x)) * ulp x \<le> of_int (k * 2 ^ n) * ulp x"
    using ulp_pos[of x] by (simp only: mult_le_cancel_right) simp
  with assms(1) show ?thesis by (simp add: fl64_def u)
qed

lemma fl64_int: "0 < x \<Longrightarrow> x < 2 ^ 52 \<Longrightarrow> x \<in> \<int> \<Longrightarrow> fl64 x = x"
proof -
  assume a: "0 < x" "x < 2 ^ 52" "x \<in> \<int>"
  then obtain k where "x = of_int k" by (auto elim: Ints_cases)
  with fl64_ge_int[OF a(1,2), of k] fl64_le_int[OF a(1,2), of k] show ?thesis by simp
qed

lemma fl64_known_exponent:
  assumes "2 powr of_int e \<le> \<bar>x\<bar>" "\<bar>x\<bar> < 2 powr of_int (e + 1)" "- 1022 \<le> e"
  shows "fl64 x = of_int (round_even (x / 2 powr of_int (e - 52))) * 2 powr of_int (e - 52)"
proof -
  from assms(1) have nz: "x \<noteq> 0" by auto
  then have "0 < \<bar>x\<bar>" by simp
  with assms(1,2) have "\<lfloor>log 2 \<bar>x\<bar>\<rfloor> = e"
    by (simp add: floor_log_eq_powr_iff)
  with assms(3) have "ulp x = 2 powr of_int (e - 52)" by (simp add: ulp_def)
  with nz show ?thesis by (simp add: fl64_def)
qed

lemma fl64_0: "fl64 0 = 0"
  by (simp add: fl64_def)

lemma fl64_eighth: "fl64 (1 / 8) = 1 / 8"
  by (subst fl64_known_exponent[of "- 3"]) (simp_all add: powr_neg_numeral round_even_def Let_def)

lemma fl64_positive: "1 \<le> x \<Longrightarrow> x < 2 ^ 52 \<Longrightarrow> (fl64 x \<le> 0) = False"
  using fl64_ge_int[of x 1] by simp

lemma fl64_floor:
  assumes "1 \<le> x" "x \<le> 30"
  shows "x - 1 \<le> fl64 x" "fl64 x \<le> 30"
proof -
  from assms have x: "0 < x" "x < 2 ^ 52" by simp_all
  have "of_int \<lfloor>x\<rfloor> \<le> fl64 x" by (rule fl64_ge_int[OF x]) simp
  then show "x - 1 \<le> fl64 x" by linarith
  from assms(2) fl64_le_int[OF x, of 30] show "fl64 x \<le> 30" by simp
qed

subsection \<open>The ray query returns the nearest target first\<close>

lemma set_hitList: "set (hitList ray is) = {(d, i). i \<in> set is \<and> ray i = Some d}"
  by (auto simp: hitList_def split: option.splits)

lemma hitList_snd_sorted: "sorted_wrt (<) is \<Longrightarrow> sorted_wrt (<) (map snd (hitList ray is))"
proof (induction "is")
  case Nil
  then show ?case by (simp add: hitList_def)
next
  case (Cons a "is")
  have "hitList ray (a # is) = (case ray a of None \<Rightarrow> [] | Some d \<Rightarrow> [(d, a)]) @ hitList ray is"
    by (simp add: hitList_def)
  with Cons show ?case
    by (auto simp: set_hitList split: option.splits)
qed

lemma hd_sort_key_least:
  assumes "sort_key f xs = y # ys"
  shows "y \<in> set xs" and "\<forall>x\<in>set xs. f y \<le> f x"
proof -
  have "set (sort_key f xs) = set xs" by simp
  with assms show "y \<in> set xs" by (metis list.set_intros(1))
  have "sorted (map f (sort_key f xs))" by simp
  with assms have "\<forall>x\<in>set ys. f y \<le> f x" by simp
  moreover have "set xs = insert y (set ys)"
    using assms by (metis list.simps(15) set_sort)
  ultimately show "\<forall>x\<in>set xs. f y \<le> f x" by auto
qed

lemma hd_sort_key_first:
  assumes "sort_key f xs = y # ys"
  shows "\<exists>us vs. xs = us @ y # vs \<and> (\<forall>u\<in>set us. f u \<noteq> f y)"
proof -
  have "filter (\<lambda>x. f x = f y) (sort_key f xs) = filter (\<lambda>x. f x = f y) xs"
    by (rule sort_key_stable)
  with assms have "filter (\<lambda>x. f x = f y) xs = y # filter (\<lambda>x. f x = f y) ys"
    by simp
  then obtain us vs where "xs = us @ y # vs" "\<forall>u\<in>set us. \<not> (f u = f y)"
    by (auto simp: filter_eq_Cons_iff)
  then show ?thesis by blast
qed

lemma intersectObjects_Nil:
  "intersectObjects ray targets = [] \<longleftrightarrow> (\<forall>i<length targets. ray i = None)"
proof -
  have "length (intersectObjects ray targets) = length (hitList ray [0..<length targets])"
    by (simp add: intersectObjects_def hitList_def)
  then have "intersectObjects ray targets = [] \<longleftrightarrow> set (hitList ray [0..<length targets]) = {}"
    by (simp only: set_empty flip: length_0_conv)
  also have "\<dots> \<longleftrightarrow> (\<forall>i<length targets. ray i = None)"
  proof -
    show ?thesis
    proof
      assume e: "set (hitList ray [0..<length targets]) = {}"
      show "\<forall>i<length targets. ray i = None"
      proof (intro allI impI)
        fix i assume i: "i < length targets"
        show "ray i = None"
        proof (cases "ray i")
          case (Some d)
          with i have "(d, i) \<in> set (hitList ray [0..<length targets])"
            by (simp add: set_hitList)
          with e show ?thesis by simp
        qed simp
      qed
    next
      assume "\<forall>i<length targets. ray i = None"
      then show "set (hitList ray [0..<length targets]) = {}"
        by (auto simp: set_hitList)
    qed
  qed
  finally show ?thesis .
qed

lemma intersectObjects_Cons:
  assumes "intersectObjects ray targets = (d, i) # rest"
  shows "nearest ray (length targets) i" and "ray i = Some d"
proof -
  let ?xs = "hitList ray [0..<length targets]"
  have s: "sort_key fst ?xs = (d, i) # rest"
    using assms by (simp add: intersectObjects_def hitList_def)
  from hd_sort_key_least[OF s] have mem: "(d, i) \<in> set ?xs"
    and least: "\<forall>x\<in>set ?xs. d \<le> fst x" by auto
  from mem have i: "i < length targets" and di: "ray i = Some d"
    by (auto simp: set_hitList)
  from hd_sort_key_first[OF s] obtain us vs where
    split: "?xs = us @ (d, i) # vs" and us: "\<forall>u\<in>set us. fst u \<noteq> d" by auto
  have "sorted_wrt (<) (map snd ?xs)"
    by (rule hitList_snd_sorted) simp
  with split have after: "\<forall>v\<in>set vs. i < snd v"
    by (simp add: sorted_wrt_append)
  have "d < d' \<or> (d = d' \<and> i \<le> j)" if "j < length targets" "ray j = Some d'" for j d'
  proof -
    from that have m: "(d', j) \<in> set ?xs" by (auto simp: set_hitList)
    with least have "d \<le> d'" by auto
    moreover have "i \<le> j" if "d = d'"
    proof -
      from m split have "(d', j) \<in> set us \<or> (d', j) = (d, i) \<or> (d', j) \<in> set vs" by auto
      with us after that show ?thesis by auto
    qed
    ultimately show ?thesis by auto
  qed
  with i di show "nearest ray (length targets) i"
    by (auto simp: nearest_def split: option.splits)
  show "ray i = Some d" by (rule di)
qed

lemma nearestD:
  assumes "nearest ray n i"
  shows "\<exists>d. i < n \<and> ray i = Some d \<and>
           (\<forall>j d'. j < n \<longrightarrow> ray j = Some d' \<longrightarrow> d < d' \<or> (d = d' \<and> i \<le> j))"
proof -
  from assms have i: "i < n" by (simp add: nearest_def)
  from assms obtain d where d: "ray i = Some d"
    by (cases "ray i") (simp_all add: nearest_def)
  from assms d have "\<forall>j\<in>set [0..<n]. case ray j of None \<Rightarrow> True | Some d' \<Rightarrow> d < d' \<or> (d = d' \<and> i \<le> j)"
    by (simp add: nearest_def)
  then have "\<forall>j d'. j < n \<longrightarrow> ray j = Some d' \<longrightarrow> d < d' \<or> (d = d' \<and> i \<le> j)"
    by (auto split: option.splits)
  with i d show ?thesis by blast
qed

lemma nearest_unique:
  assumes "nearest ray n i" "nearest ray n j"
  shows "i = j"
proof -
  from nearestD[OF assms(1)] obtain d where i: "i < n" "ray i = Some d"
    and li: "\<forall>k d'. k < n \<longrightarrow> ray k = Some d' \<longrightarrow> d < d' \<or> (d = d' \<and> i \<le> k)"
    by blast
  from nearestD[OF assms(2)] obtain e where j: "j < n" "ray j = Some e"
    and lj: "\<forall>k d'. k < n \<longrightarrow> ray k = Some d' \<longrightarrow> e < d' \<or> (e = d' \<and> j \<le> k)"
    by blast
  from li j have "d < e \<or> (d = e \<and> i \<le> j)" by blast
  moreover from lj i have "e < d \<or> (e = d \<and> j \<le> i)" by blast
  ultimately show ?thesis by auto
qed

lemma nearest_intersectObjects:
  assumes "nearest ray (length targets) i"
  shows "\<exists>d rest. intersectObjects ray targets = (d, i) # rest \<and> ray i = Some d"
proof -
  from nearestD[OF assms] obtain d where "i < length targets" "ray i = Some d"
    by blast
  then have "intersectObjects ray targets \<noteq> []"
    by (auto simp: intersectObjects_Nil)
  then obtain d0 i0 rest where c: "intersectObjects ray targets = (d0, i0) # rest"
    by (cases "intersectObjects ray targets") auto
  from intersectObjects_Cons[OF c] nearest_unique[OF assms] have "i0 = i" "ray i0 = Some d0"
    by auto
  with c show ?thesis by auto
qed

lemma nearest_exists:
  assumes "i < length targets" "ray i \<noteq> None"
  shows "\<exists>k. nearest ray (length targets) k"
proof -
  from assms have "intersectObjects ray targets \<noteq> []"
    by (auto simp: intersectObjects_Nil)
  then obtain d0 i0 rest where c: "intersectObjects ray targets = (d0, i0) # rest"
    by (cases "intersectObjects ray targets") auto
  from intersectObjects_Cons(1)[OF c] show ?thesis ..
qed

subsection \<open>Shooting\<close>

lemma shoot_playing_Nil:
  assumes "isPlaying g" "\<forall>i<length (dolls g). cast ndc (dolls g) i = None"
  shows "shoot cast ndc g = (Miss, g)"
proof -
  from assms(2) have "intersectObjects (cast ndc (dolls g)) (dolls g) = []"
    by (simp add: intersectObjects_Nil)
  with assms(1) show ?thesis by (simp add: shoot_def)
qed

lemma shoot_playing_nearest:
  assumes "isPlaying g" "nearest (cast ndc (dolls g)) (length (dolls g)) i"
  shows "shoot cast ndc g =
           (if state (dolls g ! i) = Standing
            then (Hit, g\<lparr> dolls := (dolls g)[i := (dolls g ! i)\<lparr> state := Falling \<rparr>],
                          score := score g + points (dolls g ! i) \<rparr>)
            else (Miss, g))"
proof -
  from nearest_intersectObjects[of "cast ndc (dolls g)" "dolls g" i] assms(2) obtain d rest where
    "intersectObjects (cast ndc (dolls g)) (dolls g) = (d, i) # rest" by blast
  with assms(1) show ?thesis by (simp add: shoot_def Let_def)
qed

lemma shoot_again_miss:
  assumes "isPlaying g" "nearest (cast ndc (dolls g)) (length (dolls g)) i"
    "state (dolls g ! i) = Standing"
    "nearest (cast' ndc' (dolls (snd (shoot cast ndc g)))) (length (dolls (snd (shoot cast ndc g)))) i"
  shows "shoot cast' ndc' (snd (shoot cast ndc g)) = (Miss, snd (shoot cast ndc g))"
proof -
  define g' where "g' = snd (shoot cast ndc g)"
  from assms(2) have i: "i < length (dolls g)" by (simp add: nearest_def)
  have g': "g' = g\<lparr> dolls := (dolls g)[i := (dolls g ! i)\<lparr> state := Falling \<rparr>],
                 score := score g + points (dolls g ! i) \<rparr>"
    unfolding g'_def using shoot_playing_nearest[of g cast ndc i] assms(1,2,3) by simp
  have p: "isPlaying g'" using assms(1) by (simp add: g')
  have f: "state (dolls g' ! i) = Falling" using i by (simp add: g')
  from assms(4) have n: "nearest (cast' ndc' (dolls g')) (length (dolls g')) i"
    by (simp only: g'_def)
  from shoot_playing_nearest[of g' cast' ndc' i] p n f
  have "shoot cast' ndc' g' = (Miss, g')" by simp
  then show ?thesis by (simp only: g'_def)
qed

text \<open>
  Claim C1. While the match is playing, a shot considers only the nearest of the targets
  the ray meets. If no target is met, the shot is a miss and nothing changes. If the
  nearest target is standing, it becomes falling, exactly its point value is added to the
  score, nothing else changes, and a hit is reported; any later shot whose nearest target
  is this same one is a miss that changes nothing. If the nearest target is not standing,
  the shot is a miss and nothing changes.
\<close>

theorem shoot_credits_nearest_standing:
  assumes "isPlaying g"
  shows
    "((\<forall>i<length (dolls g). cast ndc (dolls g) i = None) \<longrightarrow> shoot cast ndc g = (Miss, g)) \<and>
     ((\<exists>i<length (dolls g). cast ndc (dolls g) i \<noteq> None) \<longrightarrow>
        (\<exists>i. nearest (cast ndc (dolls g)) (length (dolls g)) i)) \<and>
     (\<forall>i. nearest (cast ndc (dolls g)) (length (dolls g)) i \<longrightarrow>
        (\<forall>j. nearest (cast ndc (dolls g)) (length (dolls g)) j \<longrightarrow> j = i) \<and>
        (if state (dolls g ! i) = Standing
         then shoot cast ndc g =
                (Hit, g\<lparr> dolls := (dolls g)[i := (dolls g ! i)\<lparr> state := Falling \<rparr>],
                          score := score g + points (dolls g ! i) \<rparr>) \<and>
              (\<forall>cast' ndc'.
                 nearest (cast' ndc' (dolls (snd (shoot cast ndc g))))
                         (length (dolls (snd (shoot cast ndc g)))) i \<longrightarrow>
                 shoot cast' ndc' (snd (shoot cast ndc g)) = (Miss, snd (shoot cast ndc g)))
         else shoot cast ndc g = (Miss, g)))"
proof -
  let ?ray = "cast ndc (dolls g)" and ?n = "length (dolls g)"
  have a: "(\<forall>i<?n. ?ray i = None) \<longrightarrow> shoot cast ndc g = (Miss, g)"
    using shoot_playing_Nil[of g cast ndc] assms by blast
  have b: "(\<exists>i<?n. ?ray i \<noteq> None) \<longrightarrow> (\<exists>i. nearest ?ray ?n i)"
    using nearest_exists[of _ "dolls g" ?ray] by blast
  have c: "\<forall>j. nearest ?ray ?n j \<longrightarrow> j = i" if "nearest ?ray ?n i" for i
    using nearest_unique[of ?ray ?n _ i] that by blast
  have d: "shoot cast ndc g =
             (if state (dolls g ! i) = Standing
              then (Hit, g\<lparr> dolls := (dolls g)[i := (dolls g ! i)\<lparr> state := Falling \<rparr>],
                          score := score g + points (dolls g ! i) \<rparr>)
              else (Miss, g))" if "nearest ?ray ?n i" for i
    using shoot_playing_nearest[of g cast ndc i] assms that by blast
  have e: "shoot cast' ndc' (snd (shoot cast ndc g)) = (Miss, snd (shoot cast ndc g))"
    if "nearest ?ray ?n i" "state (dolls g ! i) = Standing"
       "nearest (cast' ndc' (dolls (snd (shoot cast ndc g))))
                (length (dolls (snd (shoot cast ndc g)))) i" for i cast' ndc'
    using shoot_again_miss[of g cast ndc i cast' ndc'] assms that by blast
  show ?thesis
  proof (intro conjI allI impI)
    show "(\<forall>i<?n. ?ray i = None) \<Longrightarrow> shoot cast ndc g = (Miss, g)"
      using a by blast
    show "(\<exists>i<?n. ?ray i \<noteq> None) \<Longrightarrow> (\<exists>i. nearest ?ray ?n i)"
      using b by blast
    show "j = i" if "nearest ?ray ?n i" "nearest ?ray ?n j" for i j
      using c that by blast
    show "if state (dolls g ! i) = Standing
          then shoot cast ndc g =
                (Hit, g\<lparr> dolls := (dolls g)[i := (dolls g ! i)\<lparr> state := Falling \<rparr>],
                          score := score g + points (dolls g ! i) \<rparr>) \<and>
              (\<forall>cast' ndc'.
                 nearest (cast' ndc' (dolls (snd (shoot cast ndc g))))
                         (length (dolls (snd (shoot cast ndc g)))) i \<longrightarrow>
                 shoot cast' ndc' (snd (shoot cast ndc g)) = (Miss, snd (shoot cast ndc g)))
          else shoot cast ndc g = (Miss, g)" if n: "nearest ?ray ?n i" for i
    proof (cases "state (dolls g ! i) = Standing")
      case True
      with d[OF n] e[OF n True] show ?thesis by simp
    next
      case False
      with d[OF n] show ?thesis by simp
    qed
  qed
qed

text \<open>
  Claim C7. While the match is not playing, \<open>shoot\<close> returns without reporting a hit and
  leaves the whole game, in particular the score and the state of every target, as it was.
\<close>

theorem shoot_not_playing_noop:
  assumes "\<not> isPlaying g"
  shows "fst (shoot cast ndc g) = NotPlaying \<and> snd (shoot cast ndc g) = g \<and>
         score (snd (shoot cast ndc g)) = score g \<and>
         map state (dolls (snd (shoot cast ndc g))) = map state (dolls g)"
  using assms by (simp add: shoot_def)

subsection \<open>Starting a match\<close>

lemma start_dolls: "dolls (start g) = map resetDoll (dolls g)"
  by (simp add: start_def updateUI_def Let_def)

lemma start_fields:
  "score (start g) = 0" "timeLeft (start g) = totalTime g" "isPlaying (start g)"
  "totalTime (start g) = totalTime g"
  by (simp_all add: start_def updateUI_def Let_def)

lemma resetDoll_idem: "resetDoll (resetDoll d) = resetDoll d"
  by (simp add: resetDoll_def)

text \<open>
  Claim C6. Whatever the state before, \<open>start\<close> yields a state with score 0, the full
  time left, the match playing and every target standing with zero fall rotation; calling
  it again changes nothing.
\<close>

theorem start_resets:
  "score (start g) = 0 \<and> timeLeft (start g) = totalTime g \<and> isPlaying (start g) \<and>
   length (dolls (start g)) = length (dolls g) \<and>
   (\<forall>d\<in>set (dolls (start g)). state d = Standing \<and> rotation_x d = 0) \<and>
   start (start g) = start g"
proof -
  have "\<forall>d\<in>set (dolls (start g)). state d = Standing \<and> rotation_x d = 0"
    by (auto simp: start_dolls resetDoll_def)
  moreover have "start (start g) = start g"
    by (simp add: start_def updateUI_def Let_def resetDoll_idem comp_def)
  ultimately show ?thesis
    by (simp add: start_fields start_dolls)
qed


subsection \<open>Instances on concrete games\<close>

lemma upt_shelves:
  "[0..<5] = [0, 1, 2, 3, 4]"
  "[0..<6] = [0, 1, 2, 3, 4, 5]"
  "[0..<7] = [0, 1, 2, 3, 4, 5, 6]"
  "[0..<18] = [0, 1, 2, 3, 4, 5, 6, 7, 8, 9, 10, 11, 12, 13, 14, 15, 16, 17]"
  by code_simp+

lemmas game_defs =
  Game_new_def page0_def onTextureLoad_def createDolls_def createShelf_def createDoll_def
  shelfY_def colors_def upt_shelves Let_def start_def updateUI_def resetDoll_def
  update_def endGame_def animateDoll_def

lemmas game_timer_defs = game_defs fl64_0 fl64_int fl64_eighth fl64_positive

lemma loadedGame_not_playing: "\<not> isPlaying loadedGame"
  by (simp add: loadedGame_def game_timer_defs)

theorem shoot_not_playing_noop_witness:
  "\<not> isPlaying loadedGame \<and>
   fst (shoot (rayAt [(7, 17)]) (0, 0) loadedGame) = NotPlaying \<and>
   snd (shoot (rayAt [(7, 17)]) (0, 0) loadedGame) = loadedGame \<and>
   score (snd (shoot (rayAt [(7, 17)]) (0, 0) loadedGame)) = score loadedGame \<and>
   map state (dolls (snd (shoot (rayAt [(7, 17)]) (0, 0) loadedGame))) =
     map state (dolls loadedGame)"
  using shoot_not_playing_noop[of loadedGame "rayAt [(7, 17)]" "(0, 0)"]
    loadedGame_not_playing by simp

lemma playingGame_facts:
  "isPlaying playingGame" "length (dolls playingGame) = 18" "score playingGame = 0"
  "state (dolls playingGame ! 7) = Standing" "points (dolls playingGame ! 7) = 20"
  by (simp_all add: playingGame_def game_timer_defs)

lemma rayAt_nearest:
  "nearest (rayAt [(2, 18), (7, 17)] ndc ds) 18 7"
  by (simp add: nearest_def rayAt_def upt_shelves)

theorem shoot_credits_nearest_standing_witness:
  "isPlaying playingGame \<and>
   nearest (rayAt [(2, 18), (7, 17)] (0, 0) (dolls playingGame)) (length (dolls playingGame)) 7 \<and>
   state (dolls playingGame ! 7) = Standing \<and>
   fst (shoot (rayAt [(2, 18), (7, 17)]) (0, 0) playingGame) = Hit \<and>
   score (snd (shoot (rayAt [(2, 18), (7, 17)]) (0, 0) playingGame)) = 20 \<and>
   state (dolls (snd (shoot (rayAt [(2, 18), (7, 17)]) (0, 0) playingGame)) ! 7) = Falling \<and>
   fst (shoot (rayAt [(7, 3)]) (0, 0) (snd (shoot (rayAt [(2, 18), (7, 17)]) (0, 0) playingGame))) = Miss \<and>
   score (snd (shoot (rayAt [(7, 3)]) (0, 0) (snd (shoot (rayAt [(2, 18), (7, 17)]) (0, 0) playingGame)))) = 20 \<and>
   shoot (rayAt []) (0, 0) playingGame = (Miss, playingGame)"
proof -
  let ?cast = "rayAt [(2, 18), (7, 17)]"
  let ?g' = "snd (shoot ?cast (0, 0) playingGame)"
  note t = shoot_credits_nearest_standing[OF playingGame_facts(1), of ?cast "(0, 0)"]
  have n: "nearest (?cast (0, 0) (dolls playingGame)) (length (dolls playingGame)) 7"
    unfolding playingGame_facts(2) by (rule rayAt_nearest)
  note c = t[THEN conjunct2, THEN conjunct2, THEN spec, THEN mp, OF n, THEN conjunct2]
  note hb = c[unfolded playingGame_facts(4) simp_thms if_True]
  note hit = hb[THEN conjunct1] and again = hb[THEN conjunct2]
  have len: "length (dolls ?g') = 18" by (simp add: hit playingGame_facts)
  have "nearest (rayAt [(7, 3)] (0, 0) (dolls ?g')) (length (dolls ?g')) 7"
    unfolding len by (simp add: nearest_def rayAt_def upt_shelves)
  with again have miss: "shoot (rayAt [(7, 3)]) (0, 0) ?g' = (Miss, ?g')" by blast
  have none: "shoot (rayAt []) (0, 0) playingGame = (Miss, playingGame)"
    using shoot_credits_nearest_standing[OF playingGame_facts(1), of "rayAt []" "(0, 0)"]
    by (simp add: rayAt_def)
  show ?thesis
    using n playingGame_facts none miss by (simp add: hit)
qed

theorem start_resets_witness:
  "score finishedGame = 20 \<and> \<not> isPlaying finishedGame \<and> timeLeft finishedGame = 0 \<and>
   state (dolls finishedGame ! 7) = Fallen \<and>
   score (start finishedGame) = 0 \<and> timeLeft (start finishedGame) = 30 \<and>
   isPlaying (start finishedGame) \<and>
   length (dolls (start finishedGame)) = 18 \<and>
   list_all (\<lambda>d. state d = Standing \<and> rotation_x d = 0) (dolls (start finishedGame)) \<and>
   start (start finishedGame) = start finishedGame"
proof -
  have "intersectObjects (rayAt [(7, 17)] (0, 0) ds) ds = [(17, 7)]" if "length ds = 18" for ds :: "Doll list"
    using that by (simp add: intersectObjects_def rayAt_def upt_shelves)
  then have f: "score finishedGame = 20" "\<not> isPlaying finishedGame" "timeLeft finishedGame = 0"
    "state (dolls finishedGame ! 7) = Fallen"
    "length (dolls finishedGame) = 18" "totalTime finishedGame = 30"
    using pi_half_less_two
    by (simp_all add: finishedGame_def game_timer_defs shoot_def)
  from start_resets[of finishedGame] f show ?thesis by (simp add: list_all_iff)
qed


subsection \<open>What each operation does to the list of dolls\<close>

lemma update_dolls:
  "dolls (update dt g) = (if isPlaying g then map (animateDoll dt) (dolls g) else dolls g)"
  by (simp add: update_def updateUI_def endGame_def Let_def)

lemma update_score: "score (update dt g) = score g"
  by (simp add: update_def updateUI_def endGame_def Let_def)

lemma shoot_cases:
  "snd (shoot cast ndc g) = g \<or>
   (\<exists>i<length (dolls g). state (dolls g ! i) = Standing \<and>
      snd (shoot cast ndc g) =
        g\<lparr> dolls := (dolls g)[i := (dolls g ! i)\<lparr> state := Falling \<rparr>],
           score := score g + points (dolls g ! i) \<rparr>)"
proof (cases "isPlaying g")
  case False
  then show ?thesis by (simp add: shoot_def)
next
  case True
  show ?thesis
  proof (cases "intersectObjects (cast ndc (dolls g)) (dolls g)")
    case Nil
    with True show ?thesis by (simp add: shoot_def)
  next
    case (Cons h rest)
    obtain d i where h: "h = (d, i)" by (cases h)
    from intersectObjects_Cons(1)[of "cast ndc (dolls g)" "dolls g" d i rest] Cons h
    have i: "i < length (dolls g)" by (simp add: nearest_def)
    show ?thesis
    proof (cases "state (dolls g ! i) = Standing")
      case s: True
      with True Cons h have
        "snd (shoot cast ndc g) =
           g\<lparr> dolls := (dolls g)[i := (dolls g ! i)\<lparr> state := Falling \<rparr>],
              score := score g + points (dolls g ! i) \<rparr>"
        by (simp add: shoot_def Let_def)
      with i s show ?thesis by blast
    next
      case False
      with True Cons h show ?thesis by (simp add: shoot_def Let_def)
    qed
  qed
qed

lemma createDolls_dolls:
  "dolls (createDolls w h g) = dolls g @ newDolls w"
  by (simp add: newDolls_def createDolls_def)

lemma onTextureLoad_dolls:
  "dolls (onTextureLoad width height g) = dolls g @ newDolls (20 * (width / height))"
  by (simp add: onTextureLoad_def createDolls_dolls Let_def)

lemma onTextureLoad_score: "score (onTextureLoad width height g) = score g"
  by (simp add: onTextureLoad_def createDolls_def Let_def)

lemma newDolls_points: "map points (newDolls w) = shelfPoints"
  by (simp add: newDolls_def shelfPoints_def createShelf_def createDoll_def
      shelfY_def upt_shelves Let_def)

lemma newDolls_state: "d \<in> set (newDolls w) \<Longrightarrow> state d = Standing \<and> rotation_x d = 0"
  by (auto simp: newDolls_def createShelf_def createDoll_def shelfY_def Let_def)

lemma animateDoll_points: "points (animateDoll dt d) = points d"
  by (simp add: animateDoll_def Let_def)

lemma animateDoll_state:
  "state (animateDoll dt d) = state d \<or> (state d = Falling \<and> state (animateDoll dt d) = Fallen)"
  by (simp add: animateDoll_def Let_def)

lemma length_dolls_step: "length (dolls g) \<le> length (dolls (step e g))"
proof (cases e)
  case (Shoot ndc cast)
  with shoot_cases[of cast ndc g] show ?thesis by auto
qed (auto simp: start_dolls update_dolls onTextureLoad_dolls)

lemma length_dolls_exec: "length (dolls g) \<le> length (dolls (exec evs g))"
proof (induction evs arbitrary: g)
  case (Cons e evs)
  from length_dolls_step[of g e] Cons[of "step e g"] show ?case by simp
qed simp

lemma points_step:
  assumes "i < length (dolls g)"
  shows "points (dolls (step e g) ! i) = points (dolls g ! i)"
proof (cases e)
  case Start
  with assms show ?thesis by (simp add: start_dolls resetDoll_def)
next
  case (Update dt)
  with assms show ?thesis by (simp add: update_dolls animateDoll_points)
next
  case (Shoot ndc cast)
  with shoot_cases[of cast ndc g] assms show ?thesis
    by (auto simp: nth_list_update)
next
  case (TextureLoaded width height)
  with assms show ?thesis by (simp add: onTextureLoad_dolls nth_append)
qed

lemma points_exec:
  "i < length (dolls g) \<Longrightarrow> points (dolls (exec evs g) ! i) = points (dolls g ! i)"
proof (induction evs arbitrary: g)
  case (Cons e evs)
  from Cons.prems length_dolls_step[of g e] have "i < length (dolls (step e g))" by simp
  from Cons.IH[OF this] points_step[OF Cons.prems, of e] show ?case by simp
qed simp

lemma state_step:
  assumes "i < length (dolls g)" "e \<noteq> Start"
  shows "rank (state (dolls g ! i)) \<le> rank (state (dolls (step e g) ! i))"
proof (cases e)
  case Start
  with assms show ?thesis by simp
next
  case (Update dt)
  with assms animateDoll_state[of dt "dolls g ! i"] show ?thesis
    by (auto simp: update_dolls)
next
  case (Shoot ndc cast)
  with shoot_cases[of cast ndc g] assms show ?thesis
    by (auto simp: nth_list_update)
next
  case (TextureLoaded width height)
  with assms show ?thesis by (simp add: onTextureLoad_dolls nth_append)
qed

lemma state_exec:
  "i < length (dolls g) \<Longrightarrow> Start \<notin> set evs \<Longrightarrow>
   rank (state (dolls g ! i)) \<le> rank (state (dolls (exec evs g) ! i))"
proof (induction evs arbitrary: g)
  case (Cons e evs)
  from Cons.prems length_dolls_step[of g e] have i: "i < length (dolls (step e g))" by simp
  from Cons.prems have "e \<noteq> Start" "Start \<notin> set evs" by auto
  with Cons.IH[OF i] state_step[OF Cons.prems(1), of e] show ?case by simp
qed simp


subsection \<open>Point values\<close>

lemma rowsFromBottom_values:
  "rowsFromBottom 0 = 3" "rowsFromBottom 1 = 2" "rowsFromBottom 2 = 1"
  by (simp_all add: rowsFromBottom_def shelfY_def)

lemma createShelf_points:
  "d \<in> set (createShelf w y layerIndex) \<Longrightarrow> points d = (3 - int layerIndex) * 10"
  by (auto simp: createShelf_def createDoll_def Let_def)

lemma newDolls_shelf:
  "d \<in> set (newDolls w) \<Longrightarrow>
   (pivotY d, points d) = (7 / 5, 30) \<or> (pivotY d, points d) = (- 8 / 5, 20) \<or>
   (pivotY d, points d) = (- 23 / 5, 10)"
  by (auto simp: newDolls_def createShelf_def createDoll_def shelfY_def Let_def pivotY_def)

lemma newDolls_higher_worth_more:
  assumes "d \<in> set (newDolls w)" "d' \<in> set (newDolls w)" "pivotY d < pivotY d'"
  shows "points d < points d'"
  using newDolls_shelf[OF assms(1)] newDolls_shelf[OF assms(2)] assms(3) by auto

text \<open>
  Claim C8. The point value of a target is set when it is created, as ten times the
  number of shelves at or below its own: 30, 20 and 10 from the top shelf down, so that
  of two targets the one on the higher shelf is worth strictly more; no later call
  changes the point value of a target.
\<close>

theorem points_fixed_by_shelf:
  "(\<forall>layerIndex<3. \<forall>d\<in>set (createShelf w (shelfY ! layerIndex) layerIndex).
       points d = int (rowsFromBottom layerIndex) * 10) \<and>
   map points (dolls (createDolls w h g)) =
     map points (dolls g) @ replicate 5 30 @ replicate 6 20 @ replicate 7 10 \<and>
   (\<forall>d\<in>set (dolls (createDolls w h (Game_new doc))).
      \<forall>d'\<in>set (dolls (createDolls w h (Game_new doc))).
        pivotY d < pivotY d' \<longrightarrow> points d < points d') \<and>
   (\<forall>evs i. i < length (dolls g) \<longrightarrow> points (dolls (exec evs g) ! i) = points (dolls g ! i))"
proof (intro conjI)
  show "\<forall>layerIndex<3. \<forall>d\<in>set (createShelf w (shelfY ! layerIndex) layerIndex).
          points d = int (rowsFromBottom layerIndex) * 10"
  proof (intro allI impI ballI)
    fix layerIndex :: nat and d
    assume l: "layerIndex < 3" and d: "d \<in> set (createShelf w (shelfY ! layerIndex) layerIndex)"
    from l have "layerIndex = 0 \<or> layerIndex = 1 \<or> layerIndex = 2" by arith
    then have "int (rowsFromBottom layerIndex) = 3 - int layerIndex"
      using rowsFromBottom_values by auto
    with createShelf_points[OF d] show "points d = int (rowsFromBottom layerIndex) * 10"
      by simp
  qed
  show "map points (dolls (createDolls w h g)) =
          map points (dolls g) @ replicate 5 30 @ replicate 6 20 @ replicate 7 10"
    by (simp add: createDolls_dolls newDolls_points shelfPoints_def numeral_eq_Suc)
  show "\<forall>d\<in>set (dolls (createDolls w h (Game_new doc))).
          \<forall>d'\<in>set (dolls (createDolls w h (Game_new doc))).
            pivotY d < pivotY d' \<longrightarrow> points d < points d'"
    using newDolls_higher_worth_more[of _ w]
    by (simp add: createDolls_dolls Game_new_def)
  show "\<forall>evs i. i < length (dolls g) \<longrightarrow> points (dolls (exec evs g) ! i) = points (dolls g ! i)"
    using points_exec by blast
qed

subsection \<open>Target states only advance\<close>

text \<open>
  Claim C4. A shot changes the state of a target only from standing to falling, an update
  only from falling to fallen, and over any sequence of calls without \<open>start\<close> the state of
  a target never moves backwards; in particular a target that has left standing is
  standing again only after \<open>start\<close>.
\<close>

theorem doll_state_only_advances:
  "(\<forall>i<length (dolls g).
      state (dolls (snd (shoot cast ndc g)) ! i) = state (dolls g ! i) \<or>
      (state (dolls g ! i) = Standing \<and> state (dolls (snd (shoot cast ndc g)) ! i) = Falling)) \<and>
   (\<forall>i<length (dolls g).
      state (dolls (update dt g) ! i) = state (dolls g ! i) \<or>
      (state (dolls g ! i) = Falling \<and> state (dolls (update dt g) ! i) = Fallen)) \<and>
   (\<forall>evs. \<forall>i<length (dolls g). Start \<notin> set evs \<longrightarrow>
      rank (state (dolls g ! i)) \<le> rank (state (dolls (exec evs g) ! i)) \<and>
      (state (dolls (exec evs g) ! i) = Standing \<longrightarrow> state (dolls g ! i) = Standing))"
proof (intro conjI allI impI)
  fix i assume i: "i < length (dolls g)"
  from shoot_cases[of cast ndc g] i
  show "state (dolls (snd (shoot cast ndc g)) ! i) = state (dolls g ! i) \<or>
        (state (dolls g ! i) = Standing \<and> state (dolls (snd (shoot cast ndc g)) ! i) = Falling)"
    by (auto simp: nth_list_update split: if_splits)
next
  fix i assume i: "i < length (dolls g)"
  from animateDoll_state[of dt "dolls g ! i"] i
  show "state (dolls (update dt g) ! i) = state (dolls g ! i) \<or>
        (state (dolls g ! i) = Falling \<and> state (dolls (update dt g) ! i) = Fallen)"
    by (auto simp: update_dolls)
next
  fix evs i assume i: "i < length (dolls g)" and s: "Start \<notin> set evs"
  from state_exec[OF i s]
  show r: "rank (state (dolls g ! i)) \<le> rank (state (dolls (exec evs g) ! i))" .
  assume "state (dolls (exec evs g) ! i) = Standing"
  with r show "state (dolls g ! i) = Standing"
    by (cases "state (dolls g ! i)") simp_all
qed

subsection \<open>The score is the value of the targets shot down\<close>

lemma credited_append: "credited (xs @ ys) = credited xs + credited ys"
  by (simp add: credited_def)

lemma credited_standing: "\<forall>d\<in>set ds. state d = Standing \<Longrightarrow> credited ds = 0"
  by (induction ds) (simp_all add: credited_def)

lemma credited_reset: "credited (map resetDoll ds) = 0"
  by (rule credited_standing) (simp add: resetDoll_def)

lemma animateDoll_standing: "state (animateDoll dt d) = Standing \<longleftrightarrow> state d = Standing"
  by (simp add: animateDoll_def Let_def)

lemma credited_animate: "credited (map (animateDoll dt) ds) = credited ds"
  by (induction ds) (simp_all add: credited_def animateDoll_standing animateDoll_points)

lemma credited_hit:
  "i < length ds \<Longrightarrow> state (ds ! i) = Standing \<Longrightarrow>
   credited (ds[i := (ds ! i)\<lparr> state := Falling \<rparr>]) = credited ds + points (ds ! i)"
proof (induction ds arbitrary: i)
  case Nil
  then show ?case by simp
next
  case (Cons d ds)
  show ?case
  proof (cases i)
    case 0
    with Cons.prems show ?thesis by (simp add: credited_def)
  next
    case (Suc k)
    with Cons.prems Cons.IH[of k] show ?thesis by (simp add: credited_def)
  qed
qed

lemma credited_step:
  assumes "score g = credited (dolls g)"
  shows "score (step e g) = credited (dolls (step e g))"
proof (cases e)
  case Start
  then show ?thesis by (simp add: start_dolls start_fields credited_reset)
next
  case (Update dt)
  with assms show ?thesis by (simp add: update_dolls update_score credited_animate)
next
  case (Shoot ndc cast)
  with shoot_cases[of cast ndc g] assms show ?thesis
    by (auto simp: credited_hit)
next
  case (TextureLoaded width height)
  have "credited (newDolls w) = 0" for w
    by (rule credited_standing) (simp add: newDolls_state)
  with TextureLoaded assms show ?thesis
    by (simp add: onTextureLoad_dolls onTextureLoad_score credited_append)
qed

lemma credited_exec:
  "score g = credited (dolls g) \<Longrightarrow> score (exec evs g) = credited (dolls (exec evs g))"
proof (induction evs arbitrary: g)
  case (Cons e evs)
  from Cons.IH[OF credited_step[OF Cons.prems, of e]] show ?case by simp
qed simp

lemma points_list_step:
  "map points (dolls (step e g)) =
     map points (dolls g) @ (if isTextureLoaded e then shelfPoints else [])"
proof (cases e)
  case Start
  then show ?thesis by (simp add: start_dolls resetDoll_def comp_def)
next
  case (Update dt)
  then show ?thesis by (simp add: update_dolls animateDoll_points comp_def)
next
  case (Shoot ndc cast)
  with shoot_cases[of cast ndc g] show ?thesis
    by (auto simp: map_update list_update_same_conv)
next
  case (TextureLoaded width height)
  then show ?thesis by (simp add: onTextureLoad_dolls newDolls_points)
qed

lemma points_list_exec:
  "map points (dolls (exec evs g)) =
     map points (dolls g) @ concat (replicate (length (filter isTextureLoaded evs)) shelfPoints)"
proof (induction evs arbitrary: g)
  case (Cons e evs)
  show ?case
    by (simp add: Cons.IH[of "step e g"] points_list_step)
qed simp

lemma credited_bounds:
  "\<forall>p\<in>set (map points ds). 0 \<le> p \<and> 10 dvd p \<Longrightarrow>
   0 \<le> credited ds \<and> credited ds \<le> sum_list (map points ds) \<and> 10 dvd credited ds"
  by (induction ds) (auto simp: credited_def)

text \<open>
  Claim C10. In every state the game reaches from its construction, with the background
  texture loaded at most once, the score is the sum of the point values of the targets
  that are not standing; hence it is a multiple of 10 between 0 and 340, the total value
  of the 18 targets.
\<close>

theorem score_is_value_of_shot_targets:
  assumes "length (filter isTextureLoaded evs) \<le> 1"
  shows "score (exec evs (Game_new doc)) = credited (dolls (exec evs (Game_new doc))) \<and>
         0 \<le> score (exec evs (Game_new doc)) \<and>
         10 dvd score (exec evs (Game_new doc)) \<and>
         score (exec evs (Game_new doc)) \<le> 340 \<and>
         (length (dolls (exec evs (Game_new doc))) = 0 \<or>
          length (dolls (exec evs (Game_new doc))) = 18 \<and>
          sum_list (map points (dolls (exec evs (Game_new doc)))) = 5 * 30 + 6 * 20 + 7 * 10)"
proof -
  let ?g = "exec evs (Game_new doc)"
  have "score (Game_new doc) = credited (dolls (Game_new doc))"
    by (simp add: Game_new_def credited_def)
  then have inv: "score ?g = credited (dolls ?g)" by (rule credited_exec)
  from assms have "length (filter isTextureLoaded evs) = 0 \<or> length (filter isTextureLoaded evs) = 1"
    by arith
  moreover have "dolls (Game_new doc) = []" by (simp add: Game_new_def)
  then have "map points (dolls ?g) =
      concat (replicate (length (filter isTextureLoaded evs)) shelfPoints)"
    by (simp add: points_list_exec[of evs "Game_new doc"])
  ultimately have pts: "map points (dolls ?g) = [] \<or> map points (dolls ?g) = shelfPoints"
    by auto
  then have "\<forall>p\<in>set (map points (dolls ?g)). 0 \<le> p \<and> 10 dvd p"
    by (auto simp: shelfPoints_def)
  from credited_bounds[OF this] have b: "0 \<le> credited (dolls ?g)"
    "credited (dolls ?g) \<le> sum_list (map points (dolls ?g))" "10 dvd credited (dolls ?g)"
    by auto
  from pts have s: "sum_list (map points (dolls ?g)) \<le> 340"
    by (auto simp: shelfPoints_def)
  from pts have l: "length (dolls ?g) = 0 \<or>
      length (dolls ?g) = 18 \<and> sum_list (map points (dolls ?g)) = 5 * 30 + 6 * 20 + 7 * 10"
  proof
    assume "map points (dolls ?g) = []"
    then show ?thesis by simp
  next
    assume p: "map points (dolls ?g) = shelfPoints"
    have "length (map points (dolls ?g)) = 18" unfolding p by (simp add: shelfPoints_def)
    then have "length (dolls ?g) = 18" by simp
    moreover have "sum_list (map points (dolls ?g)) = 5 * 30 + 6 * 20 + 7 * 10"
      unfolding p by (simp add: shelfPoints_def)
    ultimately show ?thesis by blast
  qed
  from inv b s l show ?thesis by simp
qed


subsection \<open>More instances\<close>

lemma rayAt_single:
  "length ds = 18 \<Longrightarrow> intersectObjects (rayAt [(7, 17)] ndc ds) ds = [(17, 7)]"
  by (simp add: intersectObjects_def rayAt_def upt_shelves)

lemma loadedGame_createDolls: "loadedGame = createDolls (320 / 9) 20 (Game_new page0)"
  by (simp add: loadedGame_def onTextureLoad_def Let_def)

lemma loadedGame_facts:
  "length (dolls loadedGame) = 18"
  "pivotY (dolls loadedGame ! 17) = - 23 / 5" "pivotY (dolls loadedGame ! 0) = 7 / 5"
  "points (dolls loadedGame ! 17) = 10" "points (dolls loadedGame ! 0) = 30"
  "points (dolls loadedGame ! 7) = 20"
  by (simp_all add: loadedGame_def game_timer_defs pivotY_def)

lemma shotGame_facts:
  "shotGame = snd (shoot (rayAt [(7, 17)]) (0, 0) playingGame)"
  "length (dolls shotGame) = 18" "isPlaying shotGame" "score shotGame = 20"
  "state (dolls shotGame ! 7) = Falling" "rotation_x (dolls shotGame ! 7) = 0"
  "state (dolls (update 1 shotGame) ! 7) = Fallen"
  "state (dolls (exec [Shoot (0, 0) (rayAt [(7, 17)]), Update 1] playingGame) ! 7) = Fallen"
  using pi_half_less_two
  by (simp_all add: shotGame_def playingGame_def game_timer_defs shoot_def rayAt_single)

lemma finishedGame_facts:
  "score finishedGame = 20" "\<not> isPlaying finishedGame" "timeLeft finishedGame = 0"
  "state (dolls finishedGame ! 7) = Fallen" "length (dolls finishedGame) = 18"
  "totalTime finishedGame = 30" "credited (dolls finishedGame) = 20"
  "points (dolls finishedGame ! 7) = 20"
  "finishedGame = exec [Start, Shoot (0, 0) (rayAt [(7, 17)]), Update 1, Update 29] loadedGame"
  using pi_half_less_two
  by (simp_all add: finishedGame_def loadedGame_def game_timer_defs shoot_def rayAt_single credited_def)

theorem points_fixed_by_shelf_witness:
  "rowsFromBottom 0 = 3 \<and>
   points (hd (createShelf (320 / 9) (shelfY ! 0) 0)) = 30 \<and>
   map points (dolls loadedGame) =
     [30, 30, 30, 30, 30, 20, 20, 20, 20, 20, 20, 10, 10, 10, 10, 10, 10, 10] \<and>
   pivotY (dolls loadedGame ! 17) < pivotY (dolls loadedGame ! 0) \<and>
   points (dolls loadedGame ! 17) < points (dolls loadedGame ! 0) \<and>
   points (dolls finishedGame ! 7) = points (dolls loadedGame ! 7)"
proof -
  note t = points_fixed_by_shelf[of "320 / 9" 20 "Game_new page0" page0,
      folded loadedGame_createDolls]
  have "hd (createShelf (320 / 9) (shelfY ! 0) 0) \<in> set (createShelf (320 / 9) (shelfY ! 0) 0)"
    by (simp add: createShelf_def upt_shelves)
  with t have a: "points (hd (createShelf (320 / 9) (shelfY ! 0) 0)) = int (rowsFromBottom 0) * 10"
    by (metis zero_less_numeral)
  from t have b: "map points (dolls loadedGame) =
      map points (dolls (Game_new page0)) @ replicate 5 30 @ replicate 6 20 @ replicate 7 10"
    by (rule conjunct2[THEN conjunct1])
  have m: "dolls loadedGame ! 17 \<in> set (dolls loadedGame)" "dolls loadedGame ! 0 \<in> set (dolls loadedGame)"
    by (simp_all add: loadedGame_facts)
  have lt: "pivotY (dolls loadedGame ! 17) < pivotY (dolls loadedGame ! 0)"
    by (simp add: loadedGame_facts)
  from t m lt have c: "points (dolls loadedGame ! 17) < points (dolls loadedGame ! 0)"
    by blast
  have "7 < length (dolls loadedGame)" by (simp add: loadedGame_facts)
  with points_fixed_by_shelf[of "320 / 9" 20 loadedGame page0]
  have d: "points (dolls finishedGame ! 7) = points (dolls loadedGame ! 7)"
    unfolding finishedGame_facts(9) by blast
  from a b lt c d show ?thesis
    by (simp add: rowsFromBottom_values Game_new_def numeral_eq_Suc)
qed

theorem doll_state_only_advances_witness:
  "state (dolls playingGame ! 7) = Standing \<and>
   state (dolls (snd (shoot (rayAt [(7, 17)]) (0, 0) playingGame)) ! 7) = Falling \<and>
   state (dolls shotGame ! 7) = Falling \<and>
   state (dolls (update 1 shotGame) ! 7) = Fallen \<and>
   Start \<notin> set [Shoot (0, 0) (rayAt [(7, 17)]), Update 1] \<and>
   rank (state (dolls playingGame ! 7))
     \<le> rank (state (dolls (exec [Shoot (0, 0) (rayAt [(7, 17)]), Update 1] playingGame) ! 7)) \<and>
   state (dolls (exec [Shoot (0, 0) (rayAt [(7, 17)]), Update 1] playingGame) ! 7) \<noteq> Standing"
proof -
  have i: "7 < length (dolls playingGame)" "7 < length (dolls shotGame)"
    by (simp_all add: playingGame_facts(2) shotGame_facts(2))
  have s: "Start \<notin> set [Shoot (0, 0) (rayAt [(7, 17)]), Update 1]" by simp
  from doll_state_only_advances[of playingGame "rayAt [(7, 17)]" "(0, 0)" 1] i(1) s
  have "rank (state (dolls playingGame ! 7))
     \<le> rank (state (dolls (exec [Shoot (0, 0) (rayAt [(7, 17)]), Update 1] playingGame) ! 7))"
    by blast
  moreover from doll_state_only_advances[of shotGame "rayAt [(7, 17)]" "(0, 0)" 1] i(2)
  have "state (dolls (update 1 shotGame) ! 7) = state (dolls shotGame ! 7) \<or>
      (state (dolls shotGame ! 7) = Falling \<and> state (dolls (update 1 shotGame) ! 7) = Fallen)"
    by blast
  ultimately show ?thesis
    using s playingGame_facts shotGame_facts(5,7,8) shotGame_facts(1)[symmetric]
    by simp
qed

theorem score_is_value_of_shot_targets_witness:
  "length (filter isTextureLoaded
     [TextureLoaded 1600 900, Start, Shoot (0, 0) (rayAt [(7, 17)]), Update 1, Update 29]) \<le> 1 \<and>
   score finishedGame = credited (dolls finishedGame) \<and> score finishedGame = 20 \<and>
   10 dvd score finishedGame \<and> score finishedGame \<le> 340 \<and>
   length (dolls finishedGame) = 18 \<and>
   sum_list (map points (dolls finishedGame)) = 340"
proof -
  have h: "length (filter isTextureLoaded
     [TextureLoaded 1600 900, Start, Shoot (0, 0) (rayAt [(7, 17)]), Update 1, Update 29]) \<le> 1"
    by simp
  from score_is_value_of_shot_targets[OF h, of page0, folded finishedGame_def]
    finishedGame_facts(1,5) h
  show ?thesis by simp
qed


subsection \<open>The countdown\<close>

lemma update_not_playing: "\<not> isPlaying g \<Longrightarrow> update dt g = g"
  by (simp add: update_def)

lemma update_timer:
  assumes "isPlaying g"
  shows "timeLeft (update dt g) =
           (if fl64 (timeLeft g - dt) \<le> 0 then 0 else fl64 (timeLeft g - dt))"
    and "isPlaying (update dt g) \<longleftrightarrow> \<not> fl64 (timeLeft g - dt) \<le> 0"
  using assms by (simp_all add: update_def updateUI_def endGame_def Let_def)

lemma update_overdue:
  assumes "isPlaying g" "timeLeft g \<le> dt"
  shows "\<not> isPlaying (update dt g)" "timeLeft (update dt g) = 0"
proof -
  from assms(2) have "fl64 (timeLeft g - dt) \<le> 0" by (intro fl64_nonpos) simp
  with update_timer[OF assms(1), of dt]
  show "\<not> isPlaying (update dt g)" "timeLeft (update dt g) = 0" by simp_all
qed

lemma length_updates: "length (updates dts g) = length dts"
  by (induction dts arbitrary: g) simp_all

lemma updates_stopped: "\<not> isPlaying g \<Longrightarrow> updates dts g = replicate (length dts) g"
  by (induction dts) (simp_all add: update_not_playing)

lemma endings_replicate: "endings (g # replicate n g) = 0"
  by (induction n) simp_all

lemma timer_trace:
  assumes "isPlaying g"
  shows "(\<forall>s\<in>set (updates dts g). 0 \<le> timeLeft s \<and> (\<not> isPlaying s \<longrightarrow> timeLeft s = 0)) \<and>
         endings (g # updates dts g) \<le> 1"
  using assms
proof (induction dts arbitrary: g)
  case Nil
  then show ?case by simp
next
  case (Cons dt dts)
  let ?g' = "update dt g"
  note t = update_timer[OF Cons.prems, of dt]
  show ?case
  proof (cases "isPlaying ?g'")
    case False
    with t have z: "timeLeft ?g' = 0" by simp
    from False have "updates dts ?g' = replicate (length dts) ?g'" by (rule updates_stopped)
    with False z Cons.prems show ?thesis
      by (simp add: endings_replicate del: replicate.simps)
  next
    case True
    with t have "0 \<le> timeLeft ?g'" by simp
    with Cons.IH[OF True] True Cons.prems show ?thesis by simp
  qed
qed

lemma countdown:
  assumes "isPlaying g" "0 < timeLeft g" "timeLeft g \<le> 30" "\<forall>dt\<in>set dts. 0 \<le> dt"
    and "timeLeft g + real (length dts) / 2 ^ 49 \<le> sum_list dts"
  shows "timeLeft (last (updates dts g)) = 0 \<and> \<not> isPlaying (last (updates dts g)) \<and>
         endings (g # updates dts g) = 1"
  using assms
proof (induction dts arbitrary: g)
  case Nil
  then show ?case by simp
next
  case (Cons dt dts)
  let ?g' = "update dt g"
  let ?x = "timeLeft g - dt"
  note t = update_timer[OF Cons.prems(1), of dt]
  show ?case
  proof (cases "fl64 ?x \<le> 0")
    case True
    with t have g': "timeLeft ?g' = 0" "\<not> isPlaying ?g'" by simp_all
    then have u: "updates dts ?g' = replicate (length dts) ?g'"
      by (simp add: updates_stopped)
    have "last (?g' # replicate (length dts) ?g') = ?g'" by simp
    with g' Cons.prems(1) show ?thesis
      by (simp add: u endings_replicate del: last.simps replicate.simps)
  next
    case False
    with t have g': "timeLeft ?g' = fl64 ?x" "isPlaying ?g'" by simp_all
    from False fl64_nonpos[of ?x] have pos: "0 < ?x" by fastforce
    from Cons.prems(3,4) have le: "?x \<le> 30" by simp
    from pos le have "\<bar>fl64 ?x - ?x\<bar> \<le> 1 / 2 ^ 49" by (intro fl64_error) simp_all
    then have err: "fl64 ?x \<le> ?x + 1 / 2 ^ 49" by linarith
    from pos le fl64_le_int[of ?x 30] have top: "fl64 ?x \<le> 30" by simp
    from Cons.prems(5) have "?x + 1 / 2 ^ 49 + real (length dts) / 2 ^ 49 \<le> sum_list dts"
      by (simp add: field_simps)
    with err have budget: "timeLeft ?g' + real (length dts) / 2 ^ 49 \<le> sum_list dts"
      by (simp add: g')
    from False have p: "0 < timeLeft ?g'" by (simp add: g')
    from p budget have ne: "dts \<noteq> []" by auto
    from Cons.prems(4) have nn: "\<forall>dt\<in>set dts. 0 \<le> dt" by simp
    from top have top': "timeLeft ?g' \<le> 30" by (simp add: g')
    note ih = Cons.IH[OF g'(2) p top' nn budget]
    from ne have "updates dts ?g' \<noteq> []"
      using length_updates[of dts ?g'] by auto
    with ih g' Cons.prems(1) show ?thesis by simp
  qed
qed

text \<open>
  Claim C2, as amended. Let \<open>update\<close> be called again and again on a playing match. The time
  left is never negative after an update; the match stops playing at most once, with the
  time left then exactly 0; and an update of a match that is not playing changes nothing.
  A time step of at least the time left ends the match. And the match does end, exactly
  once, when no more than the 30 seconds are left and the time steps, none negative, sum
  to at least the time left and \<open>2\<close> to the power \<open>-49\<close> more for each call, which is the most
  that the rounding of one subtraction can add.
\<close>

theorem match_ends_at_most_once:
  assumes "isPlaying g"
  shows "(\<forall>s\<in>set (updates dts g). 0 \<le> timeLeft s \<and> (\<not> isPlaying s \<longrightarrow> timeLeft s = 0)) \<and>
         endings (g # updates dts g) \<le> 1 \<and>
         (\<forall>s dt. \<not> isPlaying s \<longrightarrow> update dt s = s) \<and>
         (\<forall>dt. timeLeft g \<le> dt \<longrightarrow> \<not> isPlaying (update dt g) \<and> timeLeft (update dt g) = 0) \<and>
         (0 < timeLeft g \<and> timeLeft g \<le> 30 \<and> (\<forall>dt\<in>set dts. 0 \<le> dt) \<and>
          timeLeft g + real (length dts) / 2 ^ 49 \<le> sum_list dts \<longrightarrow>
            timeLeft (last (updates dts g)) = 0 \<and> \<not> isPlaying (last (updates dts g)) \<and>
            endings (g # updates dts g) = 1)"
  using timer_trace[OF assms, of dts] update_not_playing update_overdue[OF assms]
    countdown[OF assms, of dts]
  by blast

lemma playingGame_timer:
  "timeLeft playingGame = 30" "totalTime playingGame = 30"
  by (simp_all add: playingGame_def game_timer_defs)

theorem match_ends_at_most_once_witness:
  "isPlaying playingGame \<and> timeLeft playingGame = 30 \<and>
   list_all (\<lambda>dt. 0 \<le> dt) [10, 10, 10, 5 :: real] \<and>
   timeLeft playingGame + real (length [10, 10, 10, 5 :: real]) / 2 ^ 49
     \<le> sum_list [10, 10, 10, 5] \<and>
   map timeLeft (updates [10, 10, 10, 5] playingGame) = [20, 10, 0, 0] \<and>
   map isPlaying (updates [10, 10, 10, 5] playingGame) = [True, True, False, False] \<and>
   timeLeft (last (updates [10, 10, 10, 5] playingGame)) = 0 \<and>
   \<not> isPlaying (last (updates [10, 10, 10, 5] playingGame)) \<and>
   endings (playingGame # updates [10, 10, 10, 5] playingGame) = 1 \<and>
   \<not> isPlaying (update 30 playingGame) \<and> timeLeft (update 30 playingGame) = 0"
proof -
  note f = playingGame_facts(1) playingGame_timer(1)
  have h: "0 < timeLeft playingGame" "timeLeft playingGame \<le> 30"
    "\<forall>dt\<in>set [10, 10, 10, 5 :: real]. 0 \<le> dt"
    "timeLeft playingGame + real (length [10, 10, 10, 5 :: real]) / 2 ^ 49
       \<le> sum_list [10, 10, 10, 5]"
    "timeLeft playingGame \<le> 30"
    by (simp_all add: f)
  note t = match_ends_at_most_once[OF f(1), of "[10, 10, 10, 5]"]
  from t h have e: "timeLeft (last (updates [10, 10, 10, 5] playingGame)) = 0"
    "\<not> isPlaying (last (updates [10, 10, 10, 5] playingGame))"
    "endings (playingGame # updates [10, 10, 10, 5] playingGame) = 1"
    "\<not> isPlaying (update 30 playingGame)" "timeLeft (update 30 playingGame) = 0"
    by blast+
  have t1: "map timeLeft (updates [10, 10, 10, 5] playingGame) = [20, 10, 0, 0]"
    by (simp add: update_timer f update_not_playing fl64_int fl64_0)
  have t2: "map isPlaying (updates [10, 10, 10, 5] playingGame) = [True, True, False, False]"
    by (simp add: update_timer f update_not_playing fl64_int fl64_0)
  from f h(4) e t1 t2 show ?thesis by simp
qed

text \<open>
  The doubles nearest to 0.2 and to 1.8, with 28 between them, sum to more than 30; after
  these three time steps the match started with 30 seconds is still playing.
\<close>

lemma fl64_fifth: "fl64 (1 / 5) = 3602879701896397 / 18014398509481984"
  by (subst fl64_known_exponent[of "- 3"]) (simp_all add: powr_neg_numeral round_even_def Let_def)

lemma fl64_nine_fifths: "fl64 (9 / 5) = 8106479329266893 / 4503599627370496"
  by (subst fl64_known_exponent[of 0]) (simp_all add: powr_neg_numeral round_even_def Let_def)

lemma timer_after_fifth:
  "fl64 (30 - 3602879701896397 / 18014398509481984) = 8387954305977549 / 281474976710656"
  by (subst fl64_known_exponent[of 4]) (simp_all add: powr_neg_numeral round_even_def Let_def)

lemma timer_after_28:
  "fl64 (8387954305977549 / 281474976710656 - 28) = 506654958079181 / 281474976710656"
  by (subst fl64_known_exponent[of 0]) (simp_all add: powr_neg_numeral round_even_def Let_def)

lemma timer_after_nine_fifths:
  "fl64 (506654958079181 / 281474976710656 - 8106479329266893 / 4503599627370496)
     = 3 / 4503599627370496"
  by (subst fl64_known_exponent[of "- 51"]) (simp_all add: powr_neg_numeral round_even_def Let_def)

theorem match_ends_counterexample:
  "isPlaying playingGame \<and> timeLeft playingGame = 30 \<and> totalTime playingGame = 30 \<and>
   fl64 (1 / 5) = 3602879701896397 / 18014398509481984 \<and>
   fl64 (9 / 5) = 8106479329266893 / 4503599627370496 \<and>
   list_all (\<lambda>dt. 0 \<le> dt)
     [3602879701896397 / 18014398509481984, 28, 8106479329266893 / 4503599627370496 :: real] \<and>
   (30 :: real) \<le> sum_list
     [3602879701896397 / 18014398509481984, 28, 8106479329266893 / 4503599627370496] \<and>
   map timeLeft (updates
     [3602879701896397 / 18014398509481984, 28, 8106479329266893 / 4503599627370496]
     playingGame)
     = [8387954305977549 / 281474976710656, 506654958079181 / 281474976710656,
        3 / 4503599627370496] \<and>
   isPlaying (last (updates
     [3602879701896397 / 18014398509481984, 28, 8106479329266893 / 4503599627370496]
     playingGame)) \<and>
   timeLeft (last (updates
     [3602879701896397 / 18014398509481984, 28, 8106479329266893 / 4503599627370496]
     playingGame)) \<noteq> 0"
proof -
  note f = playingGame_facts(1) playingGame_timer
  let ?a = "3602879701896397 / 18014398509481984 :: real"
  let ?b = "8106479329266893 / 4503599627370496 :: real"
  have u1: "isPlaying (update ?a playingGame)"
    "timeLeft (update ?a playingGame) = 8387954305977549 / 281474976710656"
    using update_timer[OF f(1), of ?a] unfolding f(2) timer_after_fifth by simp_all
  have u2: "isPlaying (update 28 (update ?a playingGame))"
    "timeLeft (update 28 (update ?a playingGame)) = 506654958079181 / 281474976710656"
    using update_timer[OF u1(1), of 28] unfolding u1(2) timer_after_28 by simp_all
  have u3: "isPlaying (update ?b (update 28 (update ?a playingGame)))"
    "timeLeft (update ?b (update 28 (update ?a playingGame))) = 3 / 4503599627370496"
    using update_timer[OF u2(1), of ?b] unfolding u2(2) timer_after_nine_fifths by simp_all
  from f u1 u2 u3 show ?thesis
    by (simp add: fl64_fifth fl64_nine_fifths)
qed

subsection \<open>The fall animation\<close>

lemma animateDoll_falling:
  assumes "state d = Falling"
  shows "rotation_x (animateDoll dt d) = max (rotation_x d - 5 * dt) (- pi / 2)"
    and "rotation_x d - 5 * dt < - pi / 2 \<Longrightarrow> state (animateDoll dt d) = Fallen"
    and "\<not> rotation_x d - 5 * dt < - pi / 2 \<Longrightarrow> state (animateDoll dt d) = Falling"
  using assms by (simp_all add: animateDoll_def Let_def max_def)

lemma animateDoll_other: "state d \<noteq> Falling \<Longrightarrow> animateDoll dt d = d"
  by (simp add: animateDoll_def)

lemma fallen_step:
  assumes "i < length (dolls g)" "state (dolls g ! i) = Fallen" "e \<noteq> Start"
  shows "dolls (step e g) ! i = dolls g ! i"
proof (cases e)
  case Start
  with assms show ?thesis by simp
next
  case (Update dt)
  with assms show ?thesis by (simp add: update_dolls animateDoll_other)
next
  case (Shoot ndc cast)
  with shoot_cases[of cast ndc g] assms show ?thesis
    by (auto simp: nth_list_update)
next
  case (TextureLoaded width height)
  with assms show ?thesis by (simp add: onTextureLoad_dolls nth_append)
qed

lemma fallen_exec:
  "i < length (dolls g) \<Longrightarrow> state (dolls g ! i) = Fallen \<Longrightarrow> Start \<notin> set evs \<Longrightarrow>
   dolls (exec evs g) ! i = dolls g ! i"
proof (induction evs arbitrary: g)
  case (Cons e evs)
  from Cons.prems have e: "e \<noteq> Start" "Start \<notin> set evs" by auto
  from fallen_step[OF Cons.prems(1,2) e(1)] have s: "dolls (step e g) ! i = dolls g ! i" .
  from Cons.prems(1) length_dolls_step[of g e] have i: "i < length (dolls (step e g))" by simp
  from Cons.IH[OF i _ e(2)] s Cons.prems(2) show ?case by simp
qed simp

lemma fallen_angle_step:
  assumes "\<forall>d\<in>set (dolls g). state d = Fallen \<longrightarrow> rotation_x d = - pi / 2"
  shows "\<forall>d\<in>set (dolls (step e g)). state d = Fallen \<longrightarrow> rotation_x d = - pi / 2"
proof (cases e)
  case Start
  then show ?thesis by (simp add: start_dolls resetDoll_def)
next
  case (Update dt)
  have "state (animateDoll dt d) = Fallen \<longrightarrow> rotation_x (animateDoll dt d) = - pi / 2"
    if "state d = Fallen \<longrightarrow> rotation_x d = - pi / 2" for d
    using that by (simp add: animateDoll_def Let_def)
  with Update assms show ?thesis by (auto simp: update_dolls)
next
  case (Shoot ndc cast)
  from shoot_cases[of cast ndc g] show ?thesis
  proof
    assume "snd (shoot cast ndc g) = g"
    with Shoot assms show ?thesis by simp
  next
    assume "\<exists>i<length (dolls g). state (dolls g ! i) = Standing \<and>
        snd (shoot cast ndc g) =
          g\<lparr> dolls := (dolls g)[i := (dolls g ! i)\<lparr> state := Falling \<rparr>],
             score := score g + points (dolls g ! i) \<rparr>"
    then obtain i where
      s: "snd (shoot cast ndc g) =
          g\<lparr> dolls := (dolls g)[i := (dolls g ! i)\<lparr> state := Falling \<rparr>],
             score := score g + points (dolls g ! i) \<rparr>" by blast
    have "set ((dolls g)[i := (dolls g ! i)\<lparr> state := Falling \<rparr>])
            \<subseteq> insert ((dolls g ! i)\<lparr> state := Falling \<rparr>) (set (dolls g))"
      by (rule set_update_subset_insert)
    with assms Shoot s show ?thesis by auto
  qed
next
  case (TextureLoaded width height)
  with assms newDolls_state show ?thesis
    by (auto simp: onTextureLoad_dolls)
qed

lemma fallen_angle_exec:
  "\<forall>d\<in>set (dolls g). state d = Fallen \<longrightarrow> rotation_x d = - pi / 2 \<Longrightarrow>
   \<forall>d\<in>set (dolls (exec evs g)). state d = Fallen \<longrightarrow> rotation_x d = - pi / 2"
proof (induction evs arbitrary: g)
  case (Cons e evs)
  from Cons.IH[OF fallen_angle_step[OF Cons.prems, of e]] show ?case by simp
qed simp

text \<open>
  Claim C5, as amended. While the match is playing, an update with a positive time step
  strictly decreases the fall rotation of a falling target that is still above the
  terminal angle: by 5 times the step, or, where that would pass the terminal angle, to
  exactly the terminal angle with the target then fallen. No call other than \<open>start\<close>
  changes a fallen target, and in every state the game reaches from its construction the
  fall rotation of a fallen target is exactly the terminal angle.
\<close>

theorem falling_rotation_decreases:
  "(isPlaying g \<and> i < length (dolls g) \<and> state (dolls g ! i) = Falling \<and> 0 < dt \<and>
      - pi / 2 < rotation_x (dolls g ! i) \<longrightarrow>
      rotation_x (dolls (update dt g) ! i) < rotation_x (dolls g ! i) \<and>
      rotation_x (dolls (update dt g) ! i) = max (rotation_x (dolls g ! i) - 5 * dt) (- pi / 2) \<and>
      (rotation_x (dolls g ! i) - 5 * dt < - pi / 2 \<longrightarrow>
         state (dolls (update dt g) ! i) = Fallen \<and>
         rotation_x (dolls (update dt g) ! i) = - pi / 2) \<and>
      (- pi / 2 < rotation_x (dolls g ! i) - 5 * dt \<longrightarrow>
         state (dolls (update dt g) ! i) = Falling \<and>
         rotation_x (dolls (update dt g) ! i) = rotation_x (dolls g ! i) - 5 * dt)) \<and>
   (i < length (dolls g) \<and> state (dolls g ! i) = Fallen \<longrightarrow>
      (\<forall>evs. Start \<notin> set evs \<longrightarrow> dolls (exec evs g) ! i = dolls g ! i)) \<and>
   (\<forall>d\<in>set (dolls (exec evs (Game_new doc))). state d = Fallen \<longrightarrow> rotation_x d = - pi / 2)"
proof (intro conjI)
  show "isPlaying g \<and> i < length (dolls g) \<and> state (dolls g ! i) = Falling \<and> 0 < dt \<and>
      - pi / 2 < rotation_x (dolls g ! i) \<longrightarrow>
      rotation_x (dolls (update dt g) ! i) < rotation_x (dolls g ! i) \<and>
      rotation_x (dolls (update dt g) ! i) = max (rotation_x (dolls g ! i) - 5 * dt) (- pi / 2) \<and>
      (rotation_x (dolls g ! i) - 5 * dt < - pi / 2 \<longrightarrow>
         state (dolls (update dt g) ! i) = Fallen \<and>
         rotation_x (dolls (update dt g) ! i) = - pi / 2) \<and>
      (- pi / 2 < rotation_x (dolls g ! i) - 5 * dt \<longrightarrow>
         state (dolls (update dt g) ! i) = Falling \<and>
         rotation_x (dolls (update dt g) ! i) = rotation_x (dolls g ! i) - 5 * dt)"
  proof
    assume a: "isPlaying g \<and> i < length (dolls g) \<and> state (dolls g ! i) = Falling \<and> 0 < dt \<and>
      - pi / 2 < rotation_x (dolls g ! i)"
    then have u: "dolls (update dt g) ! i = animateDoll dt (dolls g ! i)"
      by (simp add: update_dolls)
    from a have f: "state (dolls g ! i) = Falling" by simp
    note r = animateDoll_falling[OF f, of dt]
    from a r show "rotation_x (dolls (update dt g) ! i) < rotation_x (dolls g ! i) \<and>
      rotation_x (dolls (update dt g) ! i) = max (rotation_x (dolls g ! i) - 5 * dt) (- pi / 2) \<and>
      (rotation_x (dolls g ! i) - 5 * dt < - pi / 2 \<longrightarrow>
         state (dolls (update dt g) ! i) = Fallen \<and>
         rotation_x (dolls (update dt g) ! i) = - pi / 2) \<and>
      (- pi / 2 < rotation_x (dolls g ! i) - 5 * dt \<longrightarrow>
         state (dolls (update dt g) ! i) = Falling \<and>
         rotation_x (dolls (update dt g) ! i) = rotation_x (dolls g ! i) - 5 * dt)"
      unfolding u by (auto simp: max_def)
  qed
  show "i < length (dolls g) \<and> state (dolls g ! i) = Fallen \<longrightarrow>
      (\<forall>evs. Start \<notin> set evs \<longrightarrow> dolls (exec evs g) ! i = dolls g ! i)"
    using fallen_exec by blast
  have "\<forall>d\<in>set (dolls (Game_new doc)). state d = Fallen \<longrightarrow> rotation_x d = - pi / 2"
    by (simp add: Game_new_def)
  then show "\<forall>d\<in>set (dolls (exec evs (Game_new doc))).
      state d = Fallen \<longrightarrow> rotation_x d = - pi / 2"
    by (rule fallen_angle_exec)
qed

lemma endedFalling_facts:
  "\<not> isPlaying endedFalling" "state (dolls endedFalling ! 7) = Falling"
  "rotation_x (dolls endedFalling ! 7) = - 5 / 8"
  using pi_ge_two
  by (simp_all add: endedFalling_def game_timer_defs shoot_def rayAt_single)

lemma edge_timer: "(fl64 (30 - pi / 10) \<le> 0) = False"
proof -
  have "1 \<le> 30 - pi / 10" using pi_less_4 by simp
  moreover have "(30 :: real) < 2 ^ 52" by simp
  with pi_gt_zero have "30 - pi / 10 < 2 ^ 52" by linarith
  ultimately show ?thesis by (rule fl64_positive)
qed

lemma edgeFalling_facts:
  "isPlaying edgeFalling" "state (dolls edgeFalling ! 7) = Falling"
  "rotation_x (dolls edgeFalling ! 7) = - pi / 2" "length (dolls edgeFalling) = 18"
  by (simp_all add: edgeFalling_def game_timer_defs shoot_def rayAt_single edge_timer)

theorem falling_rotation_counterexample:
  "state (dolls endedFalling ! 7) = Falling \<and> (0 :: real) < 1 \<and>
   \<not> rotation_x (dolls (update 1 endedFalling) ! 7) < rotation_x (dolls endedFalling ! 7) \<and>
   state (dolls edgeFalling ! 7) = Falling \<and> rotation_x (dolls edgeFalling ! 7) = - pi / 2 \<and>
   \<not> rotation_x (dolls (update 1 edgeFalling) ! 7) < rotation_x (dolls edgeFalling ! 7)"
proof -
  have "update 1 endedFalling = endedFalling"
    by (simp add: update_not_playing endedFalling_facts)
  moreover have "rotation_x (dolls (update 1 edgeFalling) ! 7) = - pi / 2"
    by (simp add: update_dolls edgeFalling_facts animateDoll_def Let_def)
  ultimately show ?thesis
    by (simp add: endedFalling_facts edgeFalling_facts)
qed

lemma fallingGame_facts:
  "isPlaying fallingGame" "length (dolls fallingGame) = 18"
  "state (dolls fallingGame ! 7) = Falling" "rotation_x (dolls fallingGame ! 7) = - 1 / 2"
  using pi_ge_two
  by (simp_all add: fallingGame_def game_timer_defs shoot_def rayAt_single)

theorem falling_rotation_decreases_witness:
  "isPlaying fallingGame \<and> 7 < length (dolls fallingGame) \<and>
   state (dolls fallingGame ! 7) = Falling \<and> (0 :: real) < 1 / 20 \<and>
   - pi / 2 < rotation_x (dolls fallingGame ! 7) \<and>
   rotation_x (dolls fallingGame ! 7) = - 1 / 2 \<and>
   rotation_x (dolls (update (1 / 20) fallingGame) ! 7) = - 3 / 4 \<and>
   state (dolls (update (1 / 20) fallingGame) ! 7) = Falling \<and>
   rotation_x (dolls (update 1 fallingGame) ! 7) = - pi / 2 \<and>
   state (dolls (update 1 fallingGame) ! 7) = Fallen \<and>
   dolls (exec [Update 1, Update 2] (update 1 fallingGame)) ! 7 = dolls (update 1 fallingGame) ! 7 \<and>
   state (dolls finishedGame ! 7) = Fallen \<and> rotation_x (dolls finishedGame ! 7) = - pi / 2"
proof -
  have b: "- pi / 2 < - 1 / 2" "- 1 / 2 - 5 * 1 < - pi / 2" "- pi / 2 < - 1 / 2 - 5 * (1 / 20)"
    using pi_ge_two pi_half_less_two by simp_all
  have h: "7 < length (dolls fallingGame)" by (simp add: fallingGame_facts)
  from falling_rotation_decreases[of fallingGame 7 "1 / 20" "[]" page0] fallingGame_facts h b
  have s1: "rotation_x (dolls (update (1 / 20) fallingGame) ! 7) = - 3 / 4"
    "state (dolls (update (1 / 20) fallingGame) ! 7) = Falling"
    by simp_all
  from falling_rotation_decreases[of fallingGame 7 1 "[]" page0] fallingGame_facts h b
  have s2: "rotation_x (dolls (update 1 fallingGame) ! 7) = - pi / 2"
    "state (dolls (update 1 fallingGame) ! 7) = Fallen"
    by simp_all
  have l: "7 < length (dolls (update 1 fallingGame))"
    by (simp add: update_dolls fallingGame_facts)
  have ns: "Start \<notin> set [Update 1, Update 2]" by simp
  from falling_rotation_decreases[of "update 1 fallingGame" 7 1 "[]" page0] l s2(2) ns
  have s3: "dolls (exec [Update 1, Update 2] (update 1 fallingGame)) ! 7
      = dolls (update 1 fallingGame) ! 7"
    by blast
  have m: "dolls finishedGame ! 7 \<in> set (dolls finishedGame)"
    by (rule nth_mem) (simp add: finishedGame_facts(5))
  from falling_rotation_decreases[of fallingGame 7 1
      "[TextureLoaded 1600 900, Start, Shoot (0, 0) (rayAt [(7, 17)]), Update 1, Update 29]" page0,
      folded finishedGame_def] m finishedGame_facts(4)
  have s4: "rotation_x (dolls finishedGame ! 7) = - pi / 2" by blast
  from fallingGame_facts h b s1 s2 s3 s4 finishedGame_facts(4) show ?thesis by simp
qed

subsection \<open>The time bar\<close>

text \<open>
  Claim C9, at the start of a freshly constructed game: the scale that \<open>updateUI\<close> writes
  to the time bar is the time left divided by 60, which right after \<open>start\<close> is one half,
  while the fraction of the match time remaining is 1.
\<close>

theorem time_bar_half_at_start:
  "timeBarScaleX (document (updateUI g)) = timeLeft g / 60 \<and>
   timeLeft (start (Game_new doc)) / totalTime (start (Game_new doc)) = 1 \<and>
   timeBarScaleX (document (start (Game_new doc))) = 1 / 2"
  by (simp add: updateUI_def start_def Game_new_def Let_def)


subsection \<open>The pinch gesture\<close>

lemma pinchDistance_hand: "pinchDistance (hand d) = \<bar>d\<bar>"
  by (simp add: pinchDistance_def hand_def)

lemmas app_defs =
  processGestures_def animate_def onPage_def fireShot_def clickStart_def App_new_def
  PINCH_THRESHOLD_def pinchDistance_hand sampleFrames_def startedApp_def

lemma processGestures_fires:
  assumes "isPlaying (game a)"
  shows "fst (processGestures cast (Some (landmarks # hands)) a) \<longleftrightarrow>
           pinchDistance landmarks < PINCH_THRESHOLD \<and> \<not> isPinching a \<and> pinchCooldown a \<le> 0"
  using assms by (simp add: processGestures_def onPage_def Let_def)

lemma processGestures_fired:
  assumes "fst (processGestures cast handResults a)"
  shows "isPinching (snd (processGestures cast handResults a)) \<and>
         pinchCooldown (snd (processGestures cast handResults a)) = 0.5"
proof (cases handResults)
  case None
  with assms show ?thesis by (simp add: processGestures_def)
next
  case (Some hs)
  show ?thesis
  proof (cases hs)
    case Nil
    with Some assms show ?thesis by (simp add: processGestures_def)
  next
    case (Cons landmarks hands)
    with Some assms show ?thesis
      by (simp add: processGestures_def onPage_def fireShot_def Let_def split: if_splits)
  qed
qed

lemma appStep_fired: "fst (appStep e a) \<Longrightarrow> isPinching (snd (appStep e a))"
  by (cases e) (simp_all add: processGestures_fired)

lemma processGestures_held:
  assumes "isPinching a" "pinched (Results handResults cast)"
  shows "\<not> fst (processGestures cast handResults a) \<and>
         isPinching (snd (processGestures cast handResults a))"
proof (cases handResults)
  case None
  with assms show ?thesis by (simp add: processGestures_def onPage_def)
next
  case (Some hs)
  show ?thesis
  proof (cases hs)
    case Nil
    with Some assms show ?thesis by (simp add: processGestures_def onPage_def)
  next
    case (Cons landmarks hands)
    with Some assms show ?thesis
      by (simp add: processGestures_def onPage_def Let_def)
  qed
qed

lemma appStep_held:
  assumes "isPinching a" "pinched e"
  shows "\<not> fst (appStep e a) \<and> isPinching (snd (appStep e a))"
proof (cases e)
  case (Results handResults cast)
  with assms processGestures_held[of a handResults cast] show ?thesis by simp
next
  case (Frame dt)
  with assms show ?thesis by (simp add: animate_def Let_def)
next
  case ClickStart
  with assms show ?thesis by (simp add: clickStart_def onPage_def Let_def)
next
  case ClickRestart
  with assms show ?thesis by (simp add: clickRestart_def onPage_def Let_def)
next
  case (Loaded w h)
  with assms show ?thesis by simp
next
  case (Resize w h)
  with assms show ?thesis by simp
qed

lemma fires_held:
  "isPinching a \<Longrightarrow> list_all pinched evs \<Longrightarrow> fires evs a = replicate (length evs) False"
proof (induction evs arbitrary: a)
  case (Cons e evs)
  from Cons.prems have p: "pinched e" "list_all pinched evs" by simp_all
  from appStep_held[OF Cons.prems(1) p(1)] Cons.IH[OF _ p(2)] show ?case by simp
qed simp

lemma fires_at_most_once:
  "list_all pinched evs \<Longrightarrow> length (filter id (fires evs a)) \<le> 1"
proof (induction evs arbitrary: a)
  case (Cons e evs)
  from Cons.prems have p: "list_all pinched evs" by simp
  show ?case
  proof (cases "fst (appStep e a)")
    case True
    from fires_held[OF appStep_fired[OF True] p] True show ?thesis by simp
  next
    case False
    with Cons.IH[OF p, of "snd (appStep e a)"] show ?thesis by simp
  qed
qed simp

text \<open>
  Bounds on the time left over the first frames of a match, each 0.1 seconds long:
  rounding moves the time left by far less than a second.
\<close>

lemma timer_frame:
  assumes "3 \<le> t" "t \<le> 30"
  shows "t - 2 \<le> fl64 (t - 1 / 10) \<and> fl64 (t - 1 / 10) \<le> 30"
proof -
  from assms have x: "1 \<le> t - 1 / 10" "t - 1 / 10 \<le> 30" by linarith+
  from fl64_floor[OF x] show ?thesis by linarith
qed

lemma sample_timers:
  "28 \<le> fl64 (30 - 1 / 10) \<and>
   fl64 (30 - 1 / 10) \<le> 30"
  "26 \<le> fl64 (fl64 (30 - 1 / 10) - 1 / 10) \<and>
   fl64 (fl64 (30 - 1 / 10) - 1 / 10) \<le> 30"
  "24 \<le> fl64 (fl64 (fl64 (30 - 1 / 10) - 1 / 10) - 1 / 10) \<and>
   fl64 (fl64 (fl64 (30 - 1 / 10) - 1 / 10) - 1 / 10) \<le> 30"
  "22 \<le> fl64 (fl64 (fl64 (fl64 (30 - 1 / 10) - 1 / 10) - 1 / 10) - 1 / 10) \<and>
   fl64 (fl64 (fl64 (fl64 (30 - 1 / 10) - 1 / 10) - 1 / 10) - 1 / 10) \<le> 30"
  "20 \<le> fl64 (fl64 (fl64 (fl64 (fl64 (30 - 1 / 10) - 1 / 10) - 1 / 10) - 1 / 10) - 1 / 10) \<and>
   fl64 (fl64 (fl64 (fl64 (fl64 (30 - 1 / 10) - 1 / 10) - 1 / 10) - 1 / 10) - 1 / 10) \<le> 30"
proof -
  show t1: "28 \<le> fl64 (30 - 1 / 10) \<and>
   fl64 (30 - 1 / 10) \<le> 30"
    using timer_frame[of 30] by simp
  show t2: "26 \<le> fl64 (fl64 (30 - 1 / 10) - 1 / 10) \<and>
   fl64 (fl64 (30 - 1 / 10) - 1 / 10) \<le> 30"
    using timer_frame[of "fl64 (30 - 1 / 10)"] t1 by linarith
  show t3: "24 \<le> fl64 (fl64 (fl64 (30 - 1 / 10) - 1 / 10) - 1 / 10) \<and>
   fl64 (fl64 (fl64 (30 - 1 / 10) - 1 / 10) - 1 / 10) \<le> 30"
    using timer_frame[of "fl64 (fl64 (30 - 1 / 10) - 1 / 10)"] t2 by linarith
  show t4: "22 \<le> fl64 (fl64 (fl64 (fl64 (30 - 1 / 10) - 1 / 10) - 1 / 10) - 1 / 10) \<and>
   fl64 (fl64 (fl64 (fl64 (30 - 1 / 10) - 1 / 10) - 1 / 10) - 1 / 10) \<le> 30"
    using timer_frame[of "fl64 (fl64 (fl64 (30 - 1 / 10) - 1 / 10) - 1 / 10)"] t3 by linarith
  show t5: "20 \<le> fl64 (fl64 (fl64 (fl64 (fl64 (30 - 1 / 10) - 1 / 10) - 1 / 10) - 1 / 10) - 1 / 10) \<and>
   fl64 (fl64 (fl64 (fl64 (fl64 (30 - 1 / 10) - 1 / 10) - 1 / 10) - 1 / 10) - 1 / 10) \<le> 30"
    using timer_frame[of "fl64 (fl64 (fl64 (fl64 (30 - 1 / 10) - 1 / 10) - 1 / 10) - 1 / 10)"] t4 by linarith
qed

lemma sample_playing:
  "(fl64 (30 - 1 / 10) \<le> 0) = False"
  "(fl64 (fl64 (30 - 1 / 10) - 1 / 10) \<le> 0) = False"
  "(fl64 (fl64 (fl64 (30 - 1 / 10) - 1 / 10) - 1 / 10) \<le> 0) = False"
  "(fl64 (fl64 (fl64 (fl64 (30 - 1 / 10) - 1 / 10) - 1 / 10) - 1 / 10) \<le> 0) = False"
  "(fl64 (fl64 (fl64 (fl64 (fl64 (30 - 1 / 10) - 1 / 10) - 1 / 10) - 1 / 10) - 1 / 10) \<le> 0)
     = False"
  using sample_timers by auto

text \<open>
  Claim C3, as amended. While the match is playing, a tracker result with a hand fires a
  shot if and only if the pinch distance is below 0.05, \<open>isPinching\<close> is false and the
  cooldown is at most 0. A shot fired sets \<open>isPinching\<close> and sets the cooldown to 0.5.
  Over any sequence of callbacks in which no tracker result shows the pinch released, at
  most one shot is fired; it is fired by the first result when the sequence starts with
  the match playing, \<open>isPinching\<close> false and the cooldown elapsed. For the distance
  samples 0.01, 0.01, 0.01, 0.06, 0.01, with a frame of 0.1 seconds after each, in a
  match just started, exactly one shot is fired, by the first sample.
\<close>

theorem pinch_fires_once:
  "(isPlaying (game a) \<longrightarrow>
      (fst (processGestures cast (Some (landmarks # hands)) a) \<longleftrightarrow>
         pinchDistance landmarks < 0.05 \<and> \<not> isPinching a \<and> pinchCooldown a \<le> 0)) \<and>
   (fst (processGestures cast handResults a) \<longrightarrow>
      isPinching (snd (processGestures cast handResults a)) \<and>
      pinchCooldown (snd (processGestures cast handResults a)) = 0.5) \<and>
   (list_all pinched evs \<longrightarrow> length (filter id (fires evs a)) \<le> 1) \<and>
   (isPlaying (game a) \<and> pinchDistance landmarks < 0.05 \<and> \<not> isPinching a \<and>
    pinchCooldown a \<le> 0 \<and> list_all pinched evs \<longrightarrow>
      fires (Results (Some (landmarks # hands)) cast # evs) a
        = True # replicate (length evs) False) \<and>
   fires (sampleFrames [0.01, 0.01, 0.01, 0.06, 0.01] 0.1) startedApp
     = [True, False, False, False, False, False, False, False, False, False]"
proof (intro conjI impI)
  show "fst (processGestures cast (Some (landmarks # hands)) a) \<longleftrightarrow>
         pinchDistance landmarks < 0.05 \<and> \<not> isPinching a \<and> pinchCooldown a \<le> 0"
    if "isPlaying (game a)"
    using processGestures_fires[OF that] by (simp add: PINCH_THRESHOLD_def)
  show "isPinching (snd (processGestures cast handResults a))"
    and "pinchCooldown (snd (processGestures cast handResults a)) = 0.5"
    if "fst (processGestures cast handResults a)"
    using processGestures_fired[OF that] by simp_all
  show "length (filter id (fires evs a)) \<le> 1" if "list_all pinched evs"
    using that by (rule fires_at_most_once)
  show "fires (Results (Some (landmarks # hands)) cast # evs) a
        = True # replicate (length evs) False"
    if h: "isPlaying (game a) \<and> pinchDistance landmarks < 0.05 \<and> \<not> isPinching a \<and>
       pinchCooldown a \<le> 0 \<and> list_all pinched evs"
  proof -
    from h processGestures_fires[of a cast landmarks hands]
    have f: "fst (processGestures cast (Some (landmarks # hands)) a)"
      by (simp add: PINCH_THRESHOLD_def)
    with processGestures_fired[of cast "Some (landmarks # hands)" a]
    have "isPinching (snd (processGestures cast (Some (landmarks # hands)) a))" by simp
    from fires_held[OF this] h f show ?thesis by simp
  qed
  show "fires (sampleFrames [0.01, 0.01, 0.01, 0.06, 0.01] 0.1) startedApp
     = [True, False, False, False, False, False, False, False, False, False]"
    by (simp add: app_defs game_defs shoot_def intersectObjects_def sample_playing[simplified])
qed

lemma startedApp_facts:
  "isPlaying (game startedApp)" "\<not> isPinching startedApp" "pinchCooldown startedApp = 0"
  by (simp_all add: app_defs game_defs)

theorem pinch_fires_once_witness:
  "isPlaying (game startedApp) \<and> pinchDistance (hand 0.01) < 0.05 \<and>
   \<not> isPinching startedApp \<and> pinchCooldown startedApp \<le> 0 \<and>
   fst (processGestures (rayAt []) (Some [hand 0.01]) startedApp) \<and>
   isPinching (snd (processGestures (rayAt []) (Some [hand 0.01]) startedApp)) \<and>
   pinchCooldown (snd (processGestures (rayAt []) (Some [hand 0.01]) startedApp)) = 0.5 \<and>
   list_all pinched [Frame 0.1, Results (Some [hand 0.01]) (rayAt []), Frame 0.6,
     Results (Some [hand 0.02]) (rayAt [])] \<and>
   fires [Results (Some [hand 0.01]) (rayAt []), Frame 0.1,
     Results (Some [hand 0.01]) (rayAt []), Frame 0.6, Results (Some [hand 0.02]) (rayAt [])]
     startedApp = [True, False, False, False, False]"
proof -
  let ?evs = "[Frame 0.1, Results (Some [hand 0.01]) (rayAt []), Frame 0.6,
     Results (Some [hand 0.02]) (rayAt [])]"
  have d: "pinchDistance (hand 0.01) < 0.05" by (simp add: pinchDistance_hand)
  have p: "list_all pinched ?evs"
    by (simp add: pinchDistance_hand PINCH_THRESHOLD_def)
  note t = pinch_fires_once[of startedApp "rayAt []" "hand 0.01" "[]" "Some [hand 0.01]" ?evs]
  from t startedApp_facts d have f: "fst (processGestures (rayAt []) (Some [hand 0.01]) startedApp)"
    by simp
  with t have s: "isPinching (snd (processGestures (rayAt []) (Some [hand 0.01]) startedApp))"
    "pinchCooldown (snd (processGestures (rayAt []) (Some [hand 0.01]) startedApp)) = 0.5"
    by simp_all
  from t startedApp_facts d p
  have r: "fires (Results (Some [hand 0.01]) (rayAt []) # ?evs) startedApp
      = True # replicate (length ?evs) False"
    by simp
  from startedApp_facts d f s p r show ?thesis by (simp add: numeral_eq_Suc)
qed

theorem pinch_fires_counterexample:
  "pinchDistance (hand 0.01) < 0.05 \<and> \<not> isPinching idleApp \<and> pinchCooldown idleApp \<le> 0 \<and>
   \<not> fst (processGestures (rayAt []) (Some [hand 0.01]) idleApp) \<and>
   isPlaying (game (run (sampleFrames [0.01, 0.01, 0.01, 0.06] 0.1) startedApp)) \<and>
   \<not> isPinching (run (sampleFrames [0.01, 0.01, 0.01, 0.06] 0.1) startedApp) \<and>
   \<not> fst (processGestures (rayAt []) (Some [hand 0.01])
           (run (sampleFrames [0.01, 0.01, 0.01, 0.06] 0.1) startedApp)) \<and>
   length (filter id (fires (sampleFrames [0.01] 0.1)
     (run (sampleFrames [0.01, 0.01, 0.01, 0.06] 0.1) startedApp))) = 0"
  by (simp add: idleApp_def app_defs game_defs shoot_def intersectObjects_def
      sample_playing[simplified])


end
